theory Spec2Isabelle
  imports Complex_Main
begin

section \<open>Data model\<close>

text \<open>
  Values that travel through the untyped parts of the program (the dictionaries returned
  by the language-model service, the JSON and nullable columns they are stored into) are
  JSON values. \<open>JNull\<close> is Python's \<open>None\<close>.
\<close>

datatype json =
    JNull
  | JBool bool
  | JNum real
  | JStr string
  | JList "json list"
  | JObj "(string \<times> json) list"

text \<open>Python truthiness, as used by \<open>if x:\<close> and \<open>x or y\<close>.\<close>

fun truthy :: "json \<Rightarrow> bool" where
  "truthy JNull = False"
| "truthy (JBool b) = b"
| "truthy (JNum r) = (r \<noteq> 0)"
| "truthy (JStr s) = (s \<noteq> [])"
| "truthy (JList xs) = (xs \<noteq> [])"
| "truthy (JObj kvs) = (kvs \<noteq> [])"

type_synonym dict = "string \<rightharpoonup> json"

text \<open>\<open>d.get(k, default)\<close>: the default is used only when the key is missing.\<close>

definition dict_get :: "dict \<Rightarrow> string \<Rightarrow> json \<Rightarrow> json" where
  "dict_get d k dflt = (case d k of None \<Rightarrow> dflt | Some v \<Rightarrow> v)"

text \<open>An exception is represented by its message \<open>str(e)\<close>, the only part the code uses.\<close>

type_synonym exn = string

text \<open>\<open>models.py\<close>, class \<open>DocumentCategory\<close>.\<close>

record document_category =
  cat_id :: int
  cat_name :: string
  cat_description :: "string option"
  cat_keywords :: json

text \<open>
  \<open>models.py\<close>, class \<open>Document\<close>. The columns the language-model result is assigned to
  hold whatever value the result carried, hence \<open>json\<close>. The server-side clock columns
  \<open>created_at\<close> and \<open>updated_at\<close>, and \<open>metadata\<close> and \<open>embedding_id\<close>, which no
  route writes, are left out.
\<close>

record document =
  doc_id :: int
  user_id :: int
  category_id :: "int option"
  filename :: string
  original_filename :: string
  file_path :: string
  file_size :: nat
  file_type :: string
  mime_type :: "string option"
  extracted_text :: "string option"
  summary :: json
  key_entities :: json
  classification_confidence :: json
  classification_reasoning :: json
  suggested_categories :: json
  processing_status :: string
  processing_error :: "string option"
  processed_at :: "nat option"

text \<open>
  The database: the two tables the routes use, in table order, and the next value of
  the \<open>documents.id\<close> and \<open>document_categories.id\<close> sequences.
\<close>

record db =
  documents :: "document list"
  categories :: "document_category list"
  next_document_id :: int
  next_category_id :: int

text \<open>\<open>db.query(Document).filter(Document.id == document_id).first()\<close>\<close>

definition first_document :: "db \<Rightarrow> int \<Rightarrow> document option" where
  "first_document d i = find (\<lambda>r. doc_id r = i) (documents d)"

text \<open>
  \<open>db.commit()\<close> with one modified \<open>Document\<close> object in the session: the row with the
  object's primary key takes the object's values. The object is always the row as it was
  just loaded, with the columns assigned since, so the columns that were not assigned keep
  the row's values (see \<open>session_commit\<close>).
\<close>

definition commit_document :: "db \<Rightarrow> document \<Rightarrow> db" where
  "commit_document d obj =
     d\<lparr>documents := map (\<lambda>r. if doc_id r = doc_id obj then obj else r) (documents d)\<rparr>"

text \<open>The relationship \<open>document.category\<close>: the category row the foreign key points to.\<close>

definition category_of :: "db \<Rightarrow> document \<Rightarrow> document_category option" where
  "category_of d r =
     (case category_id r of
        None \<Rightarrow> None
      | Some c \<Rightarrow> find (\<lambda>k. cat_id k = c) (categories d))"

section \<open>Background processing: \<open>process_document_async\<close>\<close>

text \<open>
  The two collaborators that are not part of the routes module are parameters:
  \<open>extract_text file_path mime_type\<close> stands for \<open>document_processor.extract_text\<close> and
  \<open>classify_document text filename\<close> for \<open>llm_service.classify_document\<close>; each either
  raises (\<open>Inl\<close>) or returns. \<open>now\<close> is the reading of \<open>datetime.utcnow()\<close>.
\<close>

type_synonym extractor = "string \<Rightarrow> string \<Rightarrow> exn + string"
type_synonym classifier = "string \<Rightarrow> string \<Rightarrow> exn + dict"

text \<open>
  The classification result is not validated before its values reach the database, and
  what the database and its driver do with a value of the wrong type is not fixed by the
  sources. It is a parameter of the run:
  \<^item> \<open>bind_name v\<close>: a value \<open>v\<close> that is not a string is compared with the \<open>name\<close>
    column (line 504). Either the query raises, or the value is compared as some text
    (a database that converts the value to the column's type).
  \<^item> \<open>aborts_on_error\<close>: whether a query that raises leaves the transaction of the session
    aborted, so that every later statement of the session raises until a rollback
    (PostgreSQL), or leaves it usable (SQLite).
  \<^item> \<open>bind_error res\<close>: the exception the second commit (line 524) raises, if it raises.
    The commit binds the values taken from the result \<open>res\<close> to the \<open>Float\<close>, \<open>Text\<close> and
    \<open>JSON\<close> columns, and raises when one of them cannot be bound.
\<close>

record backend =
  bind_name :: "json \<Rightarrow> exn + string"
  aborts_on_error :: bool
  bind_error :: "dict \<Rightarrow> exn option"

text \<open>
  \<open>db.query(DocumentCategory).filter(DocumentCategory.name == v).first()\<close> for a value
  \<open>v\<close> taken from the classification result: the first category whose name is the text
  \<open>v\<close> is compared as, unless binding \<open>v\<close> raises.
\<close>

definition first_category_named :: "backend \<Rightarrow> db \<Rightarrow> json \<Rightarrow> exn + document_category option" where
  "first_category_named b d v =
     (case (case v of JStr s \<Rightarrow> Inr s | _ \<Rightarrow> bind_name b v) of
        Inl e \<Rightarrow> Inl e
      | Inr s \<Rightarrow> Inr (find (\<lambda>c. cat_name c = s) (categories d)))"

text \<open>
  Lines 481--488: look the document up, return if it is missing, otherwise set the
  status to \<open>processing\<close> and commit.
\<close>

definition start_processing :: "db \<Rightarrow> int \<Rightarrow> db option" where
  "start_processing d document_id =
     (case first_document d document_id of
        None \<Rightarrow> None
      | Some document \<Rightarrow> Some (commit_document d (document\<lparr>processing_status := ''processing''\<rparr>)))"

text \<open>
  Lines 499--506: the variable \<open>category\<close>. A category is looked up only when the result has
  a truthy \<open>category_name\<close>.
\<close>

definition resolve_category :: "backend \<Rightarrow> db \<Rightarrow> dict \<Rightarrow> exn + document_category option" where
  "resolve_category b d classification_result =
     (case classification_result ''category_name'' of
        None \<Rightarrow> Inr None
      | Some v \<Rightarrow> if truthy v then first_category_named b d v else Inr None)"

text \<open>
  Lines 508--522: the assignments made from the classification result. The category
  reference is assigned only when a category was found.
\<close>

definition apply_classification ::
  "document_category option \<Rightarrow> dict \<Rightarrow> nat \<Rightarrow> document \<Rightarrow> document"
where
  "apply_classification category classification_result now document =
     (let document =
            (case category of
               None \<Rightarrow> document
             | Some category \<Rightarrow> document\<lparr>category_id := Some (cat_id category)\<rparr>)
      in document
           \<lparr>classification_confidence := dict_get classification_result ''confidence'' (JNum 0),
            classification_reasoning := dict_get classification_result ''reasoning'' JNull,
            suggested_categories := dict_get classification_result ''suggested_categories'' (JList []),
            key_entities := dict_get classification_result ''key_entities'' (JList []),
            summary := dict_get classification_result ''summary'' JNull,
            processing_status := ''completed'',
            processed_at := Some now\<rparr>)"

text \<open>
  A commit of the run's session after its first: the session's document object is the
  row with the columns the run has assigned since (\<open>assigned\<close>), and only those columns are
  written. When the row is gone nothing is written: the UPDATE matches no row, and the
  handler that the resulting error reaches finds no document.
\<close>

definition session_commit :: "db \<Rightarrow> int \<Rightarrow> (document \<Rightarrow> document) \<Rightarrow> db" where
  "session_commit d document_id assigned =
     (case first_document d document_id of
        None \<Rightarrow> d
      | Some row \<Rightarrow> commit_document d (assigned row))"

text \<open>
  Lines 528--536, the exception handler. The session is not rolled back, so the
  re-queried document is the session's object, and the commit also writes what the run
  had assigned before the exception.
\<close>

definition record_failure :: "db \<Rightarrow> int \<Rightarrow> (document \<Rightarrow> document) \<Rightarrow> exn \<Rightarrow> db" where
  "record_failure d document_id assigned e =
     session_commit d document_id
       (\<lambda>row. (assigned row)\<lparr>processing_status := ''failed'', processing_error := Some e\<rparr>)"

text \<open>
  Lines 490--536: extraction, classification, the category lookup and the second commit.
  The database \<open>d\<close> is the one the run meets after its first commit, which other requests
  may have changed since. An exception of extraction or classification reaches the
  handler, which records the failure. So does an exception of the category lookup, unless
  it has aborted the transaction: then the handler's own query raises, nothing is
  written and the document keeps the status \<open>processing\<close>. The same happens when the second
  commit raises: the session has not been rolled back, so the handler's query raises too.
\<close>

definition finish_processing ::
  "backend \<Rightarrow> extractor \<Rightarrow> classifier \<Rightarrow> nat \<Rightarrow> db \<Rightarrow> int \<Rightarrow> string \<Rightarrow> string \<Rightarrow> string \<Rightarrow> db"
where
  "finish_processing b extract_text classify_document now d document_id fpath mime fname =
     (case extract_text fpath mime of
        Inl e \<Rightarrow> record_failure d document_id (\<lambda>row. row) e
      | Inr text \<Rightarrow>
          let assigned = (\<lambda>row. row\<lparr>extracted_text := Some text\<rparr>)
          in (case classify_document text fname of
                Inl e \<Rightarrow> record_failure d document_id assigned e
              | Inr classification_result \<Rightarrow>
                  (case resolve_category b d classification_result of
                     Inl e \<Rightarrow>
                       if aborts_on_error b then d
                       else record_failure d document_id assigned e
                   | Inr category \<Rightarrow>
                       (case bind_error b classification_result of
                          Some e \<Rightarrow> d
                        | None \<Rightarrow>
                            session_commit d document_id
                              (\<lambda>row. apply_classification category classification_result now
                                        (assigned row))))))"

text \<open>
  The database states of a run, in order: none when the document is missing, otherwise
  the state after the first commit and the state at the end of the run.
\<close>

definition process_document_commits ::
  "backend \<Rightarrow> extractor \<Rightarrow> classifier \<Rightarrow> nat \<Rightarrow> db \<Rightarrow> int \<Rightarrow> string \<Rightarrow> string \<Rightarrow> string \<Rightarrow> db list"
where
  "process_document_commits b extract_text classify_document now d document_id fpath mime fname =
     (case start_processing d document_id of
        None \<Rightarrow> []
      | Some d1 \<Rightarrow>
          [d1, finish_processing b extract_text classify_document now d1 document_id fpath mime fname])"

definition process_document_async ::
  "backend \<Rightarrow> extractor \<Rightarrow> classifier \<Rightarrow> nat \<Rightarrow> db \<Rightarrow> int \<Rightarrow> string \<Rightarrow> string \<Rightarrow> string \<Rightarrow> db"
where
  "process_document_async b extract_text classify_document now d document_id fpath mime fname =
     last (d # process_document_commits b extract_text classify_document now d document_id fpath mime fname)"

text \<open>The status a document id has in a database, if the document exists.\<close>

definition status_of :: "db \<Rightarrow> int \<Rightarrow> string option" where
  "status_of d i = map_option processing_status (first_document d i)"

text \<open>The exception a run meets, if any: extraction is tried first, then classification.\<close>

definition run_exception :: "extractor \<Rightarrow> classifier \<Rightarrow> string \<Rightarrow> string \<Rightarrow> string \<Rightarrow> exn option" where
  "run_exception extract_text classify_document fpath mime fname =
     (case extract_text fpath mime of
        Inl e \<Rightarrow> Some e
      | Inr text \<Rightarrow> (case classify_document text fname of Inl e \<Rightarrow> Some e | Inr _ \<Rightarrow> None))"

text \<open>
  How the rest of a run ends on the database \<open>d\<close> it meets: every call returns and the second
  commit is accepted; or extraction, classification or the category lookup raises and
  the handler can write; or the database refuses a statement (the lookup, with the
  transaction aborted, or the second commit) and the handler cannot write.
\<close>

datatype run_end = Completes | Raises exn | Refused exn

definition run_end_of ::
  "backend \<Rightarrow> extractor \<Rightarrow> classifier \<Rightarrow> db \<Rightarrow> string \<Rightarrow> string \<Rightarrow> string \<Rightarrow> run_end"
where
  "run_end_of b extract_text classify_document d fpath mime fname =
     (case extract_text fpath mime of
        Inl e \<Rightarrow> Raises e
      | Inr text \<Rightarrow>
          (case classify_document text fname of
             Inl e \<Rightarrow> Raises e
           | Inr classification_result \<Rightarrow>
               (case resolve_category b d classification_result of
                  Inl e \<Rightarrow> if aborts_on_error b then Refused e else Raises e
                | Inr category \<Rightarrow>
                    (case bind_error b classification_result of
                       Some e \<Rightarrow> Refused e
                     | None \<Rightarrow> Completes))))"

section \<open>Uploads: \<open>upload_documents_bulk\<close>\<close>

text \<open>An \<open>UploadFile\<close>: the declared name, the bytes read from it, the declared type.\<close>

record upload_file =
  uf_filename :: string
  uf_content :: string
  uf_content_type :: string

text \<open>
  The dictionary \<open>save_uploaded_file\<close> returns. The routes read its keys \<open>file_path\<close> and
  \<open>mime_type\<close> and pass all of it on to the \<open>Document\<close> constructor, so its keys are the
  file columns of \<open>Document\<close>.
\<close>

record file_info =
  fi_filename :: string
  fi_original_filename :: string
  fi_file_path :: string
  fi_file_size :: nat
  fi_file_type :: string
  fi_mime_type :: string

text \<open>
  \<open>validate_file filename size content_type\<close> and \<open>save_uploaded_file content filename
  user_id\<close> stand for the methods of \<open>document_processor\<close>; saving can raise.
\<close>

type_synonym validator = "string \<Rightarrow> nat \<Rightarrow> string \<Rightarrow> bool \<times> string"
type_synonym saver = "string \<Rightarrow> string \<Rightarrow> int \<Rightarrow> exn + file_info"

text \<open>
  Modelled from the spec: the schema \<open>DocumentCreate\<close> (\<open>app.schemas.document\<close>) is not among
  the sources. A document is "created synchronously at upload time with status pending";
  the file columns come from the saved file's information and every other column has the
  default \<open>models.py\<close> declares (\<open>pending\<close> for the status, NULL for the nullable ones).
  The primary key is assigned when the row is inserted.
\<close>

definition new_document :: "int \<Rightarrow> file_info \<Rightarrow> document" where
  "new_document uid info =
     \<lparr>doc_id = 0, user_id = uid, category_id = None,
      filename = fi_filename info, original_filename = fi_original_filename info,
      file_path = fi_file_path info, file_size = fi_file_size info,
      file_type = fi_file_type info, mime_type = Some (fi_mime_type info),
      extracted_text = None, summary = JNull, key_entities = JNull,
      classification_confidence = JNull, classification_reasoning = JNull,
      suggested_categories = JNull, processing_status = ''pending'',
      processing_error = None, processed_at = None\<rparr>"

text \<open>\<open>db.add(obj); db.commit(); db.refresh(obj)\<close>: the row is appended with the next id.\<close>

definition add_document :: "db \<Rightarrow> document \<Rightarrow> db \<times> document" where
  "add_document d obj =
     (let obj = obj\<lparr>doc_id := next_document_id d\<rparr>
      in (d\<lparr>documents := documents d @ [obj], next_document_id := next_document_id d + 1\<rparr>, obj))"

text \<open>The arguments of one \<open>background_tasks.add_task(process_document_async, ...)\<close>.\<close>

record task =
  task_document_id :: int
  task_file_path :: string
  task_mime_type :: string
  task_filename :: string

record failed_file =
  ff_filename :: string
  ff_error :: string

text \<open>The variables of the loop of \<open>upload_documents_bulk\<close>, with the database and the task list.\<close>

record bulk_state =
  bs_db :: db
  bs_background_tasks :: "task list"
  bs_uploaded_files :: "string list"
  bs_failed_files :: "failed_file list"
  bs_processing_jobs :: "int list"

text \<open>Lines 110--152: the body of the loop, for one file.\<close>

definition bulk_file :: "validator \<Rightarrow> saver \<Rightarrow> int \<Rightarrow> upload_file \<Rightarrow> bulk_state \<Rightarrow> bulk_state" where
  "bulk_file validate_file save_uploaded_file uid file st =
     (let file_content = uf_content file;
          (is_valid, error_message) =
            validate_file (uf_filename file) (length file_content) (uf_content_type file)
      in if \<not> is_valid then
           st\<lparr>bs_failed_files := bs_failed_files st @
                 [\<lparr>ff_filename = uf_filename file, ff_error = error_message\<rparr>]\<rparr>
         else
           (case save_uploaded_file file_content (uf_filename file) uid of
              Inl e \<Rightarrow>
                st\<lparr>bs_failed_files := bs_failed_files st @
                      [\<lparr>ff_filename = uf_filename file, ff_error = e\<rparr>]\<rparr>
            | Inr info \<Rightarrow>
                let (d, db_document) = add_document (bs_db st) (new_document uid info)
                in st\<lparr>bs_db := d,
                      bs_uploaded_files := bs_uploaded_files st @ [uf_filename file],
                      bs_processing_jobs := bs_processing_jobs st @ [doc_id db_document],
                      bs_background_tasks := bs_background_tasks st @
                        [\<lparr>task_document_id = doc_id db_document,
                          task_file_path = fi_file_path info,
                          task_mime_type = fi_mime_type info,
                          task_filename = uf_filename file\<rparr>]\<rparr>))"

fun bulk_loop :: "validator \<Rightarrow> saver \<Rightarrow> int \<Rightarrow> upload_file list \<Rightarrow> bulk_state \<Rightarrow> bulk_state" where
  "bulk_loop validate_file save_uploaded_file uid [] st = st"
| "bulk_loop validate_file save_uploaded_file uid (file # files) st =
     bulk_loop validate_file save_uploaded_file uid files
       (bulk_file validate_file save_uploaded_file uid file st)"

record bulk_upload_response =
  uploaded_files :: "string list"
  failed_files :: "failed_file list"
  processing_jobs :: "int list"
  total_files :: nat
  success_count :: nat
  failure_count :: nat

text \<open>
  \<open>upload_documents_bulk\<close>: the response, the database after the request and the
  background tasks the request has scheduled.
\<close>

definition upload_documents_bulk ::
  "validator \<Rightarrow> saver \<Rightarrow> int \<Rightarrow> upload_file list \<Rightarrow> db \<Rightarrow> bulk_upload_response \<times> db \<times> task list"
where
  "upload_documents_bulk validate_file save_uploaded_file uid files d =
     (let st = bulk_loop validate_file save_uploaded_file uid files
                 \<lparr>bs_db = d, bs_background_tasks = [], bs_uploaded_files = [],
                  bs_failed_files = [], bs_processing_jobs = []\<rparr>
      in (\<lparr>uploaded_files = bs_uploaded_files st,
           failed_files = bs_failed_files st,
           processing_jobs = bs_processing_jobs st,
           total_files = length files,
           success_count = length (bs_uploaded_files st),
           failure_count = length (bs_failed_files st)\<rparr>,
          bs_db st, bs_background_tasks st))"

text \<open>A file fails when validation rejects it or saving it raises.\<close>

definition file_fails :: "validator \<Rightarrow> saver \<Rightarrow> int \<Rightarrow> upload_file \<Rightarrow> bool" where
  "file_fails validate_file save_uploaded_file uid file =
     (\<not> fst (validate_file (uf_filename file) (length (uf_content file)) (uf_content_type file))
      \<or> isl (save_uploaded_file (uf_content file) (uf_filename file) uid))"

section \<open>Status: \<open>get_document_status\<close>\<close>

text \<open>An \<open>HTTPException\<close>: status code and detail.\<close>

datatype http_error = HTTPException nat string

record document_classification_result =
  cr_category_id :: "int option"
  cr_category_name :: "string option"
  cr_confidence :: json
  cr_reasoning :: json
  cr_suggested_categories :: json
  cr_key_entities :: json
  cr_summary :: json

record document_processing_status =
  document_id :: int
  status :: string
  progress :: real
  error_message :: "string option"
  classification_result :: "document_classification_result option"

text \<open>\<open>progress_map.get(document.processing_status, 0.0)\<close>\<close>

definition progress_map_get :: "string \<Rightarrow> real" where
  "progress_map_get s =
     (if s = ''pending'' then 0
      else if s = ''processing'' then 0.5
      else if s = ''completed'' then 1
      else if s = ''failed'' then 0
      else 0)"

text \<open>\<open>x or 0.0\<close>\<close>

definition or_zero :: "json \<Rightarrow> json" where
  "or_zero v = (if truthy v then v else JNum 0)"

text \<open>
  \<open>db.query(Document).filter(Document.id == document_id,
  Document.user_id == current_user.id).first()\<close>
\<close>

definition first_document_of_user :: "db \<Rightarrow> int \<Rightarrow> int \<Rightarrow> document option" where
  "first_document_of_user d i uid = find (\<lambda>r. doc_id r = i \<and> user_id r = uid) (documents d)"

definition get_document_status :: "db \<Rightarrow> int \<Rightarrow> int \<Rightarrow> http_error + document_processing_status" where
  "get_document_status d uid i =
     (case first_document_of_user d i uid of
        None \<Rightarrow> Inl (HTTPException 404 ''Document not found'')
      | Some document \<Rightarrow>
          let classification_result =
                (if processing_status document = ''completed'' \<and> category_of d document \<noteq> None then
                   Some \<lparr>cr_category_id = category_id document,
                         cr_category_name =
                           (case category_of d document of
                              Some category \<Rightarrow> Some (cat_name category)
                            | None \<Rightarrow> None),
                         cr_confidence = or_zero (classification_confidence document),
                         cr_reasoning = classification_reasoning document,
                         cr_suggested_categories = suggested_categories document,
                         cr_key_entities = key_entities document,
                         cr_summary = summary document\<rparr>
                 else None)
          in Inr \<lparr>document_id = doc_id document,
                  status = processing_status document,
                  progress = progress_map_get (processing_status document),
                  error_message = processing_error document,
                  classification_result = classification_result\<rparr>)"

section \<open>Queries: \<open>query_documents\<close>\<close>

record query_request =
  qr_query :: string
  qr_document_ids :: "int list option"
  qr_category_ids :: "int list option"

record source_document =
  src_id :: int
  src_filename :: string
  src_category :: string

text \<open>
  The keyword arguments given to \<open>QueryResponse\<close>. The first return passes no
  \<open>suggestions\<close>, which is \<open>None\<close> here.
\<close>

record query_response =
  query :: string
  response :: json
  confidence_score :: json
  source_documents :: "source_document list"
  reasoning :: json
  suggestions :: "json option"

text \<open>\<open>llm_service.query_documents question context_chunks\<close>, which can raise.\<close>

type_synonym query_oracle = "string \<Rightarrow> string list \<Rightarrow> exn + dict"

text \<open>
  Lines 282--295: the requester's completed documents, narrowed by each filter that is
  given and not empty. A NULL \<open>category_id\<close> is in no list.
\<close>

definition query_candidates :: "db \<Rightarrow> int \<Rightarrow> query_request \<Rightarrow> document list" where
  "query_candidates d uid req =
     (let q = filter (\<lambda>r. user_id r = uid \<and> processing_status r = ''completed'') (documents d);
          q = (case qr_document_ids req of
                 None \<Rightarrow> q
               | Some [] \<Rightarrow> q
               | Some ids \<Rightarrow> filter (\<lambda>r. doc_id r \<in> set ids) q);
          q = (case qr_category_ids req of
                 None \<Rightarrow> q
               | Some [] \<Rightarrow> q
               | Some ids \<Rightarrow>
                   filter (\<lambda>r. case category_id r of None \<Rightarrow> False | Some c \<Rightarrow> c \<in> set ids) q)
      in q)"

text \<open>
  Lines 310--322, the loop over \<open>documents[:5]\<close>: a document with a non-empty text adds
  the first 2000 characters of it to \<open>context_chunks\<close> and a citation to \<open>source_docs\<close>.
\<close>

definition source_of :: "db \<Rightarrow> document \<Rightarrow> source_document" where
  "source_of d doc =
     \<lparr>src_id = doc_id doc,
      src_filename = original_filename doc,
      src_category = (case category_of d doc of Some c \<Rightarrow> cat_name c | None \<Rightarrow> ''Uncategorized'')\<rparr>"

fun context_loop ::
  "db \<Rightarrow> document list \<Rightarrow> string list \<times> source_document list \<Rightarrow> string list \<times> source_document list"
where
  "context_loop d [] acc = acc"
| "context_loop d (doc # docs) (context_chunks, source_docs) =
     (case extracted_text doc of
        None \<Rightarrow> context_loop d docs (context_chunks, source_docs)
      | Some t \<Rightarrow>
          if t \<noteq> [] then
            context_loop d docs (context_chunks @ [take 2000 t], source_docs @ [source_of d doc])
          else context_loop d docs (context_chunks, source_docs))"

text \<open>
  \<open>query_documents\<close>: the result (the response, or the \<open>HTTPException\<close> the handler raises)
  and the calls made to the query oracle, each with its question and context list.
\<close>

definition query_documents ::
  "query_oracle \<Rightarrow> db \<Rightarrow> int \<Rightarrow> query_request
     \<Rightarrow> (http_error + query_response) \<times> (string \<times> string list) list"
where
  "query_documents llm_query d uid req =
     (let docs = query_candidates d uid req
      in if docs = [] then
           (Inr \<lparr>query = qr_query req,
                 response = JStr ''No documents found to query. Please upload and process documents first.'',
                 confidence_score = JNum 0,
                 source_documents = [],
                 reasoning = JStr ''No documents available for analysis'',
                 suggestions = None\<rparr>, [])
         else
           let (context_chunks, source_docs) = context_loop d (take 5 docs) ([], [])
           in ((case llm_query (qr_query req) context_chunks of
                  Inl e \<Rightarrow> Inl (HTTPException 500 (''Query processing failed: '' @ e))
                | Inr llm_response \<Rightarrow>
                    Inr \<lparr>query = qr_query req,
                         response = dict_get llm_response ''answer'' (JStr ''No response generated''),
                         confidence_score = dict_get llm_response ''confidence'' (JNum 0),
                         source_documents = source_docs,
                         reasoning = dict_get llm_response ''reasoning'' JNull,
                         suggestions = Some (dict_get llm_response ''suggestions'' (JList []))\<rparr>),
               [(qr_query req, context_chunks)]))"

text \<open>The documents of the first five candidates that contribute context.\<close>

definition context_documents :: "document list \<Rightarrow> document list" where
  "context_documents docs =
     filter (\<lambda>r. case extracted_text r of None \<Rightarrow> False | Some t \<Rightarrow> t \<noteq> []) (take 5 docs)"

definition text_of :: "document \<Rightarrow> string" where
  "text_of r = (case extracted_text r of None \<Rightarrow> [] | Some t \<Rightarrow> t)"

definition has_text :: "document \<Rightarrow> bool" where
  "has_text r = (case extracted_text r of None \<Rightarrow> False | Some t \<Rightarrow> t \<noteq> [])"


section \<open>Seeding: \<open>init_document_categories\<close>\<close>

record category_data =
  cd_name :: string
  cd_description :: string
  cd_keywords :: "string list"

definition default_categories :: "category_data list" where
  "default_categories =
     [\<lparr>cd_name = ''Formation'',
       cd_description = ''Documents related to company formation and incorporation'',
       cd_keywords = [''articles of incorporation'', ''certificate of incorporation'', ''bylaws'',
         ''operating agreement'', ''partnership agreement'', ''LLC agreement'', ''charter'',
         ''formation'', ''incorporation'']\<rparr>,
      \<lparr>cd_name = ''Governance'',
       cd_description = ''Corporate governance documents including board resolutions and policies'',
       cd_keywords = [''board resolution'', ''board meeting'', ''minutes'', ''governance policy'',
         ''committee charter'', ''director'', ''shareholder agreement'', ''voting'']\<rparr>,
      \<lparr>cd_name = ''Directors & Officers'',
       cd_description = ''Documents related to directors, officers, and their responsibilities'',
       cd_keywords = [''director'', ''officer'', ''D&O insurance'', ''indemnification'',
         ''fiduciary duty'', ''appointment'', ''resignation'', ''liability'']\<rparr>,
      \<lparr>cd_name = ''Cap Table'',
       cd_description = ''Equity and ownership related documents'',
       cd_keywords = [''stock certificate'', ''equity'', ''shares'', ''option grant'', ''warrant'',
         ''convertible'', ''cap table'', ''ownership'', ''vesting'', ''securities'']\<rparr>,
      \<lparr>cd_name = ''Employees'',
       cd_description = ''Employment and HR related documents'',
       cd_keywords = [''employment agreement'', ''offer letter'', ''employee handbook'',
         ''non-disclosure'', ''non-compete'', ''severance'', ''benefits'', ''payroll'']\<rparr>,
      \<lparr>cd_name = ''Intellectual Property'',
       cd_description = ''IP related documents including patents, trademarks, and assignments'',
       cd_keywords = [''patent'', ''trademark'', ''copyright'', ''IP assignment'',
         ''invention assignment'', ''trade secret'', ''license'', ''intellectual property'']\<rparr>,
      \<lparr>cd_name = ''Compliance'',
       cd_description = ''Regulatory and compliance documents'',
       cd_keywords = [''compliance'', ''regulatory filing'', ''license'', ''permit'', ''audit'',
         ''SOX'', ''GDPR'', ''privacy policy'', ''regulation'', ''filing'']\<rparr>]"

text \<open>Inserting the pending \<open>DocumentCategory\<close> objects of the session, in the order added.\<close>

definition insert_category :: "db \<Rightarrow> category_data \<Rightarrow> db" where
  "insert_category d c =
     d\<lparr>categories := categories d @
          [\<lparr>cat_id = next_category_id d, cat_name = cd_name c,
            cat_description = Some (cd_description c),
            cat_keywords = JList (map JStr (cd_keywords c))\<rparr>],
       next_category_id := next_category_id d + 1\<rparr>"

definition flush :: "db \<Rightarrow> category_data list \<Rightarrow> db" where
  "flush d pending = foldl insert_category d pending"

text \<open>
  Lines 122--139, the loop. The session factory is not among the sources, so whether the
  session flushes pending objects before a query is the parameter \<open>autoflush\<close>. The state
  is the database as the session's queries see it and the objects added but not flushed.
\<close>

fun seed_loop :: "bool \<Rightarrow> category_data list \<Rightarrow> db \<times> category_data list \<Rightarrow> db \<times> category_data list" where
  "seed_loop autoflush [] s = s"
| "seed_loop autoflush (category_data # rest) (d, pending) =
     (let (d, pending) = (if autoflush then (flush d pending, []) else (d, pending))
      in (case find (\<lambda>k. cat_name k = cd_name category_data) (categories d) of
            None \<Rightarrow> seed_loop autoflush rest (d, pending @ [category_data])
          | Some existing_category \<Rightarrow> seed_loop autoflush rest (d, pending)))"

text \<open>\<open>init_document_categories\<close>: the loop, then \<open>db.commit()\<close>.\<close>

definition init_document_categories :: "bool \<Rightarrow> db \<Rightarrow> db" where
  "init_document_categories autoflush d =
     (let (d, pending) = seed_loop autoflush default_categories (d, [])
      in flush d pending)"

text \<open>The loop from any state of it, followed by the commit.\<close>

definition seed_result :: "bool \<Rightarrow> category_data list \<Rightarrow> db \<times> category_data list \<Rightarrow> db" where
  "seed_result af cs s = (case seed_loop af cs s of (d, pending) \<Rightarrow> flush d pending)"

definition category_names :: "db \<Rightarrow> string list" where
  "category_names d = map cat_name (categories d)"

section \<open>Single upload and deletion\<close>

text \<open>
  \<open>upload_document\<close> (lines 54--93): the document created, or \<open>None\<close> when the handler
  raises its \<open>HTTPException\<close>; the database after the request; the tasks it has scheduled.
\<close>

definition upload_document ::
  "validator \<Rightarrow> saver \<Rightarrow> int \<Rightarrow> upload_file \<Rightarrow> db \<Rightarrow> document option \<times> db \<times> task list"
where
  "upload_document validate_file save_uploaded_file uid file d =
     (let file_content = uf_content file;
          (is_valid, error_message) =
            validate_file (uf_filename file) (length file_content) (uf_content_type file)
      in if \<not> is_valid then (None, d, [])
         else
           (case save_uploaded_file file_content (uf_filename file) uid of
              Inl e \<Rightarrow> (None, d, [])
            | Inr info \<Rightarrow>
                let (d, db_document) = add_document d (new_document uid info)
                in (Some db_document, d,
                    [\<lparr>task_document_id = doc_id db_document,
                      task_file_path = fi_file_path info,
                      task_mime_type = fi_mime_type info,
                      task_filename = uf_filename file\<rparr>])))"

text \<open>
  \<open>delete_document\<close> (lines 446--469). \<open>delete_file path\<close> stands for
  \<open>document_processor.delete_file\<close> and gives the exception it raises, if any.
\<close>

definition delete_document ::
  "(string \<Rightarrow> exn option) \<Rightarrow> int \<Rightarrow> int \<Rightarrow> db \<Rightarrow> (http_error + unit) \<times> db"
where
  "delete_document delete_file uid i d =
     (case first_document_of_user d i uid of
        None \<Rightarrow> (Inl (HTTPException 404 ''Document not found''), d)
      | Some document \<Rightarrow>
          (case delete_file (file_path document) of
             Some e \<Rightarrow> (Inl (HTTPException 500 ''Failed to delete document''), d)
           | None \<Rightarrow>
               (Inr (), d\<lparr>documents := filter (\<lambda>r. doc_id r \<noteq> doc_id document) (documents d)\<rparr>)))"

section \<open>The running system\<close>

text \<open>
  The state of the service between commits: the database; the background tasks that
  requests have added and that have not started; the tasks whose runs of
  \<open>process_document_async\<close> are between their first commit and their end; and a log of the
  classification results the oracle has returned.
\<close>

text \<open>
  One entry of the log: the document the run is for, the result returned, the categories
  table the run then looked the name up in, and what the lookup of lines 499--506 gave.
\<close>

record oracle_call =
  oc_document_id :: int
  oc_result :: dict
  oc_categories :: "document_category list"
  oc_lookup :: "exn + document_category option"

record system =
  sys_db :: db
  sys_scheduled :: "task list"
  sys_running :: "task list"
  sys_oracle_log :: "oracle_call list"

definition initial_system :: system where
  "initial_system =
     \<lparr>sys_db = \<lparr>documents = [], categories = [], next_document_id = 1, next_category_id = 1\<rparr>,
      sys_scheduled = [], sys_running = [], sys_oracle_log = []\<rparr>"

text \<open>
  What can happen, with the behaviour of the collaborators at that moment: a request to
  one of the routes that write, the start of a waiting task (lines 481--488 of
  \<open>process_document_async\<close>, up to its first commit), the rest of a started run (lines
  490--536), the seeding of the categories. Any waiting task may start and any started
  run may end at any time, so every order in which the framework runs the background
  tasks is covered; each task is run once, as the framework does with the tasks added by
  \<open>add_task\<close>.
\<close>

datatype event =
    Upload validator saver int upload_file
  | BulkUpload validator saver int "upload_file list"
  | Delete "string \<Rightarrow> exn option" int int
  | StartTask nat
  | FinishTask nat backend extractor classifier nat
  | Seed bool

definition remove_nth :: "nat \<Rightarrow> 'a list \<Rightarrow> 'a list" where
  "remove_nth k xs = take k xs @ drop (Suc k) xs"

text \<open>
  The classification results the run of task \<open>t\<close> obtains on the database \<open>d\<close>: one if
  extraction and classification return, else none.
\<close>

definition classification_calls ::
  "backend \<Rightarrow> extractor \<Rightarrow> classifier \<Rightarrow> db \<Rightarrow> task \<Rightarrow> oracle_call list"
where
  "classification_calls b extract_text classify_document d t =
     (case extract_text (task_file_path t) (task_mime_type t) of
        Inl e \<Rightarrow> []
      | Inr text \<Rightarrow>
          (case classify_document text (task_filename t) of
             Inl e \<Rightarrow> []
           | Inr res \<Rightarrow>
               [\<lparr>oc_document_id = task_document_id t, oc_result = res,
                 oc_categories = categories d, oc_lookup = resolve_category b d res\<rparr>]))"

fun step :: "event \<Rightarrow> system \<Rightarrow> system" where
  "step (Upload validate_file save_uploaded_file uid file) s =
     (case upload_document validate_file save_uploaded_file uid file (sys_db s) of
        (_, d, tasks) \<Rightarrow> s\<lparr>sys_db := d, sys_scheduled := sys_scheduled s @ tasks\<rparr>)"
| "step (BulkUpload validate_file save_uploaded_file uid files) s =
     (case upload_documents_bulk validate_file save_uploaded_file uid files (sys_db s) of
        (_, d, tasks) \<Rightarrow> s\<lparr>sys_db := d, sys_scheduled := sys_scheduled s @ tasks\<rparr>)"
| "step (Delete delete_file uid i) s =
     s\<lparr>sys_db := snd (delete_document delete_file uid i (sys_db s))\<rparr>"
| "step (StartTask k) s =
     (if k < length (sys_scheduled s) then
        (let t = sys_scheduled s ! k
         in case start_processing (sys_db s) (task_document_id t) of
              None \<Rightarrow> s\<lparr>sys_scheduled := remove_nth k (sys_scheduled s)\<rparr>
            | Some d \<Rightarrow>
                s\<lparr>sys_db := d,
                  sys_scheduled := remove_nth k (sys_scheduled s),
                  sys_running := sys_running s @ [t]\<rparr>)
      else s)"
| "step (FinishTask k b extract_text classify_document now) s =
     (if k < length (sys_running s) then
        (let t = sys_running s ! k
         in s\<lparr>sys_db := finish_processing b extract_text classify_document now (sys_db s)
                          (task_document_id t) (task_file_path t) (task_mime_type t)
                          (task_filename t),
              sys_running := remove_nth k (sys_running s),
              sys_oracle_log := sys_oracle_log s @
                classification_calls b extract_text classify_document (sys_db s) t\<rparr>)
      else s)"
| "step (Seed autoflush) s = s\<lparr>sys_db := init_document_categories autoflush (sys_db s)\<rparr>"

inductive reachable :: "system \<Rightarrow> bool" where
  reachable_initial: "reachable initial_system"
| reachable_step: "reachable s \<Longrightarrow> reachable (step e s)"

text \<open>
  The columns of \<open>r\<close> that classification writes are the ones the logged call gives: the
  five values of its result, with the defaults for the keys it lacks, and the reference
  to the category its lookup found, none if it found none.
\<close>

definition written_from :: "oracle_call \<Rightarrow> document \<Rightarrow> bool" where
  "written_from c r =
     (classification_confidence r = dict_get (oc_result c) ''confidence'' (JNum 0) \<and>
      classification_reasoning r = dict_get (oc_result c) ''reasoning'' JNull \<and>
      suggested_categories r = dict_get (oc_result c) ''suggested_categories'' (JList []) \<and>
      key_entities r = dict_get (oc_result c) ''key_entities'' (JList []) \<and>
      summary r = dict_get (oc_result c) ''summary'' JNull \<and>
      (\<exists>found. oc_lookup c = Inr found \<and> category_id r = map_option cat_id found))"

text \<open>
  What a logged lookup found is what the result's \<open>category_name\<close> names in the categories
  table of that moment: nothing when the name is missing or falsy, and for a string the
  first category of that name.
\<close>

definition lookup_ok :: "oracle_call \<Rightarrow> bool" where
  "lookup_ok c =
     ((oc_result c ''category_name'' = None \<longrightarrow> oc_lookup c = Inr None) \<and>
      (\<forall>v. oc_result c ''category_name'' = Some v \<and> \<not> truthy v \<longrightarrow> oc_lookup c = Inr None) \<and>
      (\<forall>s. oc_result c ''category_name'' = Some (JStr s) \<and> s \<noteq> [] \<longrightarrow>
         oc_lookup c = Inr (find (\<lambda>k. cat_name k = s) (oc_categories c))))"

text \<open>The calls logged for a document id, oldest first.\<close>

definition calls_for :: "oracle_call list \<Rightarrow> int \<Rightarrow> oracle_call list" where
  "calls_for lg i = filter (\<lambda>c. oc_document_id c = i) lg"

subsection \<open>The invariant of the running system\<close>

definition doc_ok :: "oracle_call list \<Rightarrow> document \<Rightarrow> bool" where
  "doc_ok lg r =
     ((processing_status r = ''pending'' \<or> processing_status r = ''processing'' \<longrightarrow>
         processing_error r = None \<and> category_id r = None) \<and>
      (processing_status r = ''completed'' \<longrightarrow>
         processing_error r = None \<and> extracted_text r \<noteq> None \<and> processed_at r \<noteq> None \<and>
         (\<exists>c. calls_for lg (doc_id r) = [c] \<and> written_from c r)))"

definition task_ids :: "system \<Rightarrow> int list" where
  "task_ids s = map task_document_id (sys_scheduled s) @ map task_document_id (sys_running s)"

definition docs_ok :: "system \<Rightarrow> bool" where
  "docs_ok s =
     (\<forall>r \<in> set (documents (sys_db s)).
        doc_id r < next_document_id (sys_db s) \<and> doc_ok (sys_oracle_log s) r)"

definition sched_ok :: "system \<Rightarrow> bool" where
  "sched_ok s =
     (\<forall>t \<in> set (sys_scheduled s). \<forall>r \<in> set (documents (sys_db s)).
        doc_id r = task_document_id t \<longrightarrow> processing_status r = ''pending'')"

definition run_ok :: "system \<Rightarrow> bool" where
  "run_ok s =
     (\<forall>t \<in> set (sys_running s). \<forall>r \<in> set (documents (sys_db s)).
        doc_id r = task_document_id t \<longrightarrow> processing_status r = ''processing'')"

definition ids_ok :: "system \<Rightarrow> bool" where
  "ids_ok s =
     (distinct (task_ids s) \<and>
      (\<forall>i \<in> set (task_ids s). i < next_document_id (sys_db s)) \<and>
      (\<forall>c \<in> set (sys_oracle_log s).
         oc_document_id c < next_document_id (sys_db s) \<and>
         oc_document_id c \<notin> set (task_ids s) \<and> lookup_ok c))"

definition sys_inv :: "system \<Rightarrow> bool" where
  "sys_inv s = (docs_ok s \<and> sched_ok s \<and> run_ok s \<and> ids_ok s)"

text \<open>Primary keys: the ids of the rows are distinct and below the next id.\<close>

definition unique_ids :: "db \<Rightarrow> bool" where
  "unique_ids d =
     (distinct (map doc_id (documents d)) \<and>
      (\<forall>r \<in> set (documents d). doc_id r < next_document_id d))"

text \<open>The changes of status one step of the system can make to a document.\<close>

definition status_move :: "string \<Rightarrow> string \<Rightarrow> bool" where
  "status_move a b =
     ((a = ''pending'' \<and> b = ''processing'') \<or>
      (a = ''processing'' \<and> (b = ''completed'' \<or> b = ''failed'')))"

section \<open>Example values\<close>

text \<open>A database with one document of user 10 and one category, and sample collaborators.\<close>

definition example_info :: file_info where
  "example_info =
     \<lparr>fi_filename = ''u10_charter.txt'', fi_original_filename = ''charter.txt'',
      fi_file_path = ''uploads/u10_charter.txt'', fi_file_size = 25,
      fi_file_type = ''txt'', fi_mime_type = ''text/plain''\<rparr>"

definition example_document :: "string \<Rightarrow> document" where
  "example_document st = (new_document 10 example_info)\<lparr>doc_id := 1, processing_status := st\<rparr>"

definition example_db :: "string \<Rightarrow> db" where
  "example_db st =
     \<lparr>documents = [example_document st],
      categories = [\<lparr>cat_id = 1, cat_name = ''Formation'', cat_description = None, cat_keywords = JNull\<rparr>],
      next_document_id = 2, next_category_id = 2\<rparr>"

definition good_extract :: extractor where
  "good_extract fpath mime = Inr ''Articles of incorporation''"

definition bad_extract :: extractor where
  "bad_extract fpath mime = Inl ''Unsupported file type''"

definition good_classify :: classifier where
  "good_classify text fname =
     Inr [''category_name'' \<mapsto> JStr ''Formation'', ''confidence'' \<mapsto> JNum 0.9,
          ''reasoning'' \<mapsto> JStr ''mentions incorporation'', ''summary'' \<mapsto> JStr ''A charter'']"

text \<open>A classification whose category name matches no category.\<close>

definition odd_classify :: classifier where
  "odd_classify text fname =
     Inr [''category_name'' \<mapsto> JStr ''Tax'', ''confidence'' \<mapsto> JNum 0.8,
          ''summary'' \<mapsto> JStr ''A tax form'']"

text \<open>
  A database that refuses what is not of the column's type: a name that is not a string
  makes the lookup raise and aborts the transaction, and a confidence that is not a
  number makes the commit raise.
\<close>

definition strict_backend :: backend where
  "strict_backend =
     \<lparr>bind_name = (\<lambda>v. Inl ''operator does not exist: character varying = other''),
      aborts_on_error = True,
      bind_error = (\<lambda>res. case res ''confidence'' of
                              None \<Rightarrow> None
                            | Some (JNum x) \<Rightarrow> None
                            | Some JNull \<Rightarrow> None
                            | Some v \<Rightarrow> Some ''invalid input syntax for type double precision'')\<rparr>"

definition bad_classify :: classifier where
  "bad_classify text fname = Inl ''LLM request timed out''"

text \<open>
  Classifications with a value of the wrong type: a category name that is a number, and a
  confidence that is a word.
\<close>

definition numeric_classify :: classifier where
  "numeric_classify text fname =
     Inr [''category_name'' \<mapsto> JNum 5, ''confidence'' \<mapsto> JNum 0.9]"

definition worded_classify :: classifier where
  "worded_classify text fname =
     Inr [''category_name'' \<mapsto> JStr ''Formation'', ''confidence'' \<mapsto> JStr ''high'']"

text \<open>A database that refuses the same values, and whose failed query leaves the session usable.\<close>

definition plain_backend :: backend where
  "plain_backend = strict_backend\<lparr>aborts_on_error := False\<rparr>"


text \<open>A sample validator and saver, and a batch in which the first and third file fail.\<close>

definition example_validate :: validator where
  "example_validate fname nbytes ctype =
     (if 50 < nbytes then (False, ''File too large'')
      else if ctype \<noteq> ''text/plain'' then (False, ''File type not allowed'')
      else (True, ''''))"

definition example_save :: saver where
  "example_save content fname uid =
     (if fname = ''locked.txt'' then Inl ''Permission denied''
      else Inr \<lparr>fi_filename = ''u_'' @ fname, fi_original_filename = fname,
                fi_file_path = ''uploads/u_'' @ fname, fi_file_size = length content,
                fi_file_type = ''txt'', fi_mime_type = ''text/plain''\<rparr>)"

definition example_batch :: "upload_file list" where
  "example_batch =
     [\<lparr>uf_filename = ''a.exe'', uf_content = ''MZ'', uf_content_type = ''application/x-msdownload''\<rparr>,
      \<lparr>uf_filename = ''b.txt'', uf_content = ''bylaws'', uf_content_type = ''text/plain''\<rparr>,
      \<lparr>uf_filename = ''locked.txt'', uf_content = ''minutes'', uf_content_type = ''text/plain''\<rparr>,
      \<lparr>uf_filename = ''d.txt'', uf_content = ''charter'', uf_content_type = ''text/plain''\<rparr>]"


text \<open>A database with three completed documents of user 10, a question and an oracle
  whose answer has no confidence, reasoning or suggestions.\<close>

definition example_request :: query_request where
  "example_request = \<lparr>qr_query = ''Who signed the charter?'', qr_document_ids = None, qr_category_ids = None\<rparr>"

definition library_db :: db where
  "library_db =
     \<lparr>documents =
        [(example_document ''completed'')\<lparr>extracted_text := Some ''Charter of Acme Inc.'', category_id := Some 1\<rparr>,
         (example_document ''completed'')\<lparr>doc_id := 2, original_filename := ''blank.txt'', extracted_text := Some ''''\<rparr>,
         (example_document ''completed'')\<lparr>doc_id := 3, original_filename := ''minutes.txt'',
            extracted_text := Some ''Minutes of the board''\<rparr>],
      categories = [\<lparr>cat_id = 1, cat_name = ''Formation'', cat_description = None, cat_keywords = JNull\<rparr>],
      next_document_id = 4, next_category_id = 2\<rparr>"

definition terse_oracle :: query_oracle where
  "terse_oracle question context_chunks = Inr [''answer'' \<mapsto> JStr ''The incorporator'']"


text \<open>
  A run of the system: the seeding of the categories, one upload, the start of its task,
  the end of the run.
\<close>

definition example_uploaded :: system where
  "example_uploaded =
     step (Upload example_validate example_save 10
             \<lparr>uf_filename = ''b.txt'', uf_content = ''bylaws'', uf_content_type = ''text/plain''\<rparr>)
       (step (Seed True) initial_system)"

definition example_started :: system where
  "example_started = step (StartTask 0) example_uploaded"

definition example_system :: system where
  "example_system = step (FinishTask 0 strict_backend good_extract good_classify 7) example_started"

text \<open>The same run with a classification whose category name matches no category.\<close>

definition example_unmatched :: system where
  "example_unmatched = step (FinishTask 0 strict_backend good_extract odd_classify 7) example_started"

section \<open>Properties of background processing\<close>

lemma find_doc_id: "find (\<lambda>r. doc_id r = i) rs = Some r \<Longrightarrow> doc_id r = i"
  by (induction rs) (auto split: if_splits)

lemma first_document_id: "first_document d i = Some r \<Longrightarrow> doc_id r = i"
  unfolding first_document_def by (rule find_doc_id)

lemma find_map_commit:
  "find (\<lambda>r. doc_id r = i) (map (\<lambda>r. if doc_id r = doc_id obj then obj else r) rs) =
     (if i = doc_id obj then map_option (\<lambda>_. obj) (find (\<lambda>r. doc_id r = i) rs)
      else find (\<lambda>r. doc_id r = i) rs)"
  by (induction rs) auto

lemma first_document_commit:
  "first_document (commit_document d obj) i =
     (if i = doc_id obj then map_option (\<lambda>_. obj) (first_document d i) else first_document d i)"
  by (simp add: first_document_def commit_document_def find_map_commit)

lemma status_of_commit:
  "status_of (commit_document d obj) i =
     (if i = doc_id obj then map_option (\<lambda>_. processing_status obj) (first_document d i) else status_of d i)"
  by (simp add: status_of_def first_document_commit option.map_comp comp_def)

lemma start_processing_Some:
  "first_document d i = Some r \<Longrightarrow>
     start_processing d i = Some (commit_document d (r\<lparr>processing_status := ''processing''\<rparr>))"
  by (simp add: start_processing_def)

lemma start_processing_None:
  "first_document d i = None \<Longrightarrow> start_processing d i = None"
  by (simp add: start_processing_def)

lemma apply_classification_id: "doc_id (apply_classification c res now r) = doc_id r"
  by (simp add: apply_classification_def Let_def split: option.splits)

lemma apply_classification_status:
  "processing_status (apply_classification c res now r) = ''completed''"
  by (simp add: apply_classification_def Let_def split: option.splits)

lemma session_commit_Some:
  "first_document d i = Some row \<Longrightarrow> session_commit d i assigned = commit_document d (assigned row)"
  by (simp add: session_commit_def)

lemma categories_commit: "categories (commit_document d obj) = categories d"
  by (simp add: commit_document_def)

lemma first_category_named_commit:
  "first_category_named b (commit_document d obj) v = first_category_named b d v"
  by (simp add: first_category_named_def categories_commit split: sum.splits)

lemma resolve_category_commit:
  "resolve_category b (commit_document d obj) res = resolve_category b d res"
  by (simp add: resolve_category_def first_category_named_commit split: option.splits)

lemma run_end_of_commit:
  "run_end_of b ex cl (commit_document d obj) p m f = run_end_of b ex cl d p m f"
  by (simp add: run_end_of_def resolve_category_commit split: sum.splits)

text \<open>
  The commits of a run: none when the document is missing; otherwise the first one stores
  the document with status \<open>processing\<close>, whatever its status was, and changes nothing else.
\<close>

lemma start_commits:
  "(first_document d i = None \<longrightarrow>
      process_document_commits b ex cl now d i p m f = [] \<and>
      process_document_async b ex cl now d i p m f = d) \<and>
   (\<forall>r. first_document d i = Some r \<longrightarrow>
      (\<exists>d1 d2. process_document_commits b ex cl now d i p m f = [d1, d2] \<and>
         d1 = commit_document d (r\<lparr>processing_status := ''processing''\<rparr>) \<and>
         first_document d1 i = Some (r\<lparr>processing_status := ''processing''\<rparr>) \<and>
         (\<forall>j. j \<noteq> i \<longrightarrow> first_document d1 j = first_document d j)))"
  by (auto simp: process_document_commits_def process_document_async_def start_processing_def
      first_document_commit dest: first_document_id)

text \<open>The row a run leaves, by the way the run ends.\<close>

lemma finish_row:
  assumes r: "first_document d i = Some row"
  shows "\<exists>new. first_document (finish_processing b ex cl now d i p m f) i = Some new \<and>
           processing_status new =
             (case run_end_of b ex cl d p m f of
                Completes \<Rightarrow> ''completed''
              | Raises e \<Rightarrow> ''failed''
              | Refused e \<Rightarrow> processing_status row)"
proof -
  have i: "doc_id row = i" using r by (rule first_document_id)
  show ?thesis
    using r i
    by (auto simp: finish_processing_def run_end_of_def record_failure_def session_commit_Some
        first_document_commit apply_classification_id apply_classification_status Let_def
        split: sum.splits option.splits)
qed

text \<open>The statuses a run commits, whatever the status at its start.\<close>

lemma run_status_path:
  assumes r: "first_document d i = Some r"
  shows "map (\<lambda>s. status_of s i) (process_document_commits b ex cl now d i p m f) =
        [Some ''processing'',
         Some (case run_end_of b ex cl d p m f of
                 Completes \<Rightarrow> ''completed''
               | Raises e \<Rightarrow> ''failed''
               | Refused e \<Rightarrow> ''processing'')]"
proof -
  let ?obj = "r\<lparr>processing_status := ''processing''\<rparr>"
  let ?d1 = "commit_document d ?obj"
  have i: "doc_id r = i" using r by (rule first_document_id)
  have c: "process_document_commits b ex cl now d i p m f =
            [?d1, finish_processing b ex cl now ?d1 i p m f]"
    by (simp add: process_document_commits_def start_processing_Some [OF r])
  have f1: "first_document ?d1 i = Some ?obj"
    by (simp add: first_document_commit i r)
  have s1: "status_of ?d1 i = Some ''processing''"
    by (simp add: status_of_def f1)
  from finish_row [OF f1, of b ex cl now p m f]
  have s2: "status_of (finish_processing b ex cl now ?d1 i p m f) i =
              Some (case run_end_of b ex cl d p m f of
                      Completes \<Rightarrow> ''completed''
                    | Raises e \<Rightarrow> ''failed''
                    | Refused e \<Rightarrow> ''processing'')"
    by (auto simp: status_of_def run_end_of_commit split: run_end.splits)
  show ?thesis by (simp only: c list.map s1 s2)
qed

text \<open>
  Claim C4: when extraction or classification raises during the run on an existing
  document, the document ends \<open>failed\<close> with the exception's message as its
  \<open>processing_error\<close> (so not null), and its category reference, confidence, reasoning,
  suggested categories, entities and summary are what they were before the run.
\<close>

theorem failed_run_keeps_classification:
  assumes r: "first_document d i = Some r"
      and e: "run_exception ex cl p m f = Some e"
  shows "\<exists>r'. first_document (process_document_async b ex cl now d i p m f) i = Some r' \<and>
           processing_status r' = ''failed'' \<and> processing_error r' = Some e \<and>
           category_id r' = category_id r \<and>
           classification_confidence r' = classification_confidence r \<and>
           classification_reasoning r' = classification_reasoning r \<and>
           suggested_categories r' = suggested_categories r \<and>
           key_entities r' = key_entities r \<and>
           summary r' = summary r"
proof -
  let ?obj = "r\<lparr>processing_status := ''processing''\<rparr>"
  let ?d1 = "commit_document d ?obj"
  have i: "doc_id r = i" using r by (rule first_document_id)
  have f1: "first_document ?d1 i = Some ?obj"
    by (simp add: first_document_commit i r)
  have a: "process_document_async b ex cl now d i p m f =
             finish_processing b ex cl now ?d1 i p m f"
    by (simp add: process_document_async_def process_document_commits_def
        start_processing_Some [OF r])
  show ?thesis
  proof (cases "ex p m")
    case (Inl x)
    with e have x: "x = e" by (simp add: run_exception_def)
    have "finish_processing b ex cl now ?d1 i p m f =
            commit_document ?d1 (?obj\<lparr>processing_status := ''failed'', processing_error := Some e\<rparr>)"
      by (simp add: finish_processing_def Inl x record_failure_def session_commit_Some [OF f1])
    then show ?thesis
      by (simp add: a first_document_commit i r)
  next
    case (Inr t)
    with e have c: "cl t f = Inl e"
      by (simp add: run_exception_def split: sum.splits)
    have "finish_processing b ex cl now ?d1 i p m f =
            commit_document ?d1
              (?obj\<lparr>extracted_text := Some t, processing_status := ''failed'',
                     processing_error := Some e\<rparr>)"
      by (simp add: finish_processing_def Inr c record_failure_def session_commit_Some [OF f1])
    then show ?thesis
      by (simp add: a first_document_commit i r)
  qed
qed

lemmas example_defs = example_db_def example_document_def new_document_def example_info_def
  good_extract_def bad_extract_def good_classify_def bad_classify_def

theorem failed_run_keeps_classification_witness:
  "first_document (example_db ''pending'') 1 = Some (example_document ''pending'') \<and>
   run_exception good_extract bad_classify ''uploads/u10_charter.txt'' ''text/plain'' ''charter.txt''
     = Some ''LLM request timed out'' \<and>
   (\<exists>r'. first_document
            (process_document_async strict_backend good_extract bad_classify 7 (example_db ''pending'') 1
               ''uploads/u10_charter.txt'' ''text/plain'' ''charter.txt'') 1 = Some r' \<and>
          processing_status r' = ''failed'' \<and> processing_error r' = Some ''LLM request timed out'' \<and>
          category_id r' = None \<and> classification_confidence r' = JNull \<and>
          classification_reasoning r' = JNull \<and> suggested_categories r' = JNull \<and>
          key_entities r' = JNull \<and> summary r' = JNull)"
proof -
  have r: "first_document (example_db ''pending'') 1 = Some (example_document ''pending'')"
    by (simp add: first_document_def example_defs)
  have e: "run_exception good_extract bad_classify ''uploads/u10_charter.txt'' ''text/plain''
             ''charter.txt'' = Some ''LLM request timed out''"
    by (simp add: run_exception_def example_defs)
  from failed_run_keeps_classification [OF r e, of strict_backend 7] r e show ?thesis
    by (simp add: example_defs)
qed

section \<open>Properties of bulk upload\<close>

lemma bulk_file_fails:
  "file_fails v s u f \<Longrightarrow>
     \<exists>msg. bulk_file v s u f st =
       st\<lparr>bs_failed_files := bs_failed_files st @ [\<lparr>ff_filename = uf_filename f, ff_error = msg\<rparr>]\<rparr>"
  by (auto simp: file_fails_def bulk_file_def Let_def split: prod.splits sum.splits)

lemma bulk_file_ok:
  "\<not> file_fails v s u f \<Longrightarrow>
     \<exists>info. s (uf_content f) (uf_filename f) u = Inr info \<and>
       bulk_file v s u f st =
         st\<lparr>bs_db := fst (add_document (bs_db st) (new_document u info)),
            bs_uploaded_files := bs_uploaded_files st @ [uf_filename f],
            bs_processing_jobs := bs_processing_jobs st @ [next_document_id (bs_db st)],
            bs_background_tasks := bs_background_tasks st @
              [\<lparr>task_document_id = next_document_id (bs_db st),
                task_file_path = fi_file_path info,
                task_mime_type = fi_mime_type info,
                task_filename = uf_filename f\<rparr>]\<rparr>"
  by (auto simp: file_fails_def bulk_file_def add_document_def Let_def split: prod.splits sum.splits)

lemma bulk_loop_uploaded:
  "bs_uploaded_files (bulk_loop v s u fs st) =
     bs_uploaded_files st @ map uf_filename (filter (\<lambda>f. \<not> file_fails v s u f) fs)"
proof (induction fs arbitrary: st)
  case Nil
  then show ?case by simp
next
  case (Cons f fs)
  show ?case
  proof (cases "file_fails v s u f")
    case True
    from bulk_file_fails [OF True, of st] obtain msg where
      "bulk_file v s u f st =
         st\<lparr>bs_failed_files := bs_failed_files st @ [\<lparr>ff_filename = uf_filename f, ff_error = msg\<rparr>]\<rparr>"
      by blast
    with True show ?thesis by (simp add: Cons.IH)
  next
    case False
    from bulk_file_ok [OF False, of st] obtain info where
      "bulk_file v s u f st =
         st\<lparr>bs_db := fst (add_document (bs_db st) (new_document u info)),
            bs_uploaded_files := bs_uploaded_files st @ [uf_filename f],
            bs_processing_jobs := bs_processing_jobs st @ [next_document_id (bs_db st)],
            bs_background_tasks := bs_background_tasks st @
              [\<lparr>task_document_id = next_document_id (bs_db st),
                task_file_path = fi_file_path info,
                task_mime_type = fi_mime_type info,
                task_filename = uf_filename f\<rparr>]\<rparr>"
      by blast
    with False show ?thesis by (simp add: Cons.IH)
  qed
qed

lemma bulk_loop_failed:
  "map ff_filename (bs_failed_files (bulk_loop v s u fs st)) =
     map ff_filename (bs_failed_files st) @ map uf_filename (filter (file_fails v s u) fs)"
proof (induction fs arbitrary: st)
  case Nil
  then show ?case by simp
next
  case (Cons f fs)
  show ?case
  proof (cases "file_fails v s u f")
    case True
    from bulk_file_fails [OF True, of st] obtain msg where
      "bulk_file v s u f st =
         st\<lparr>bs_failed_files := bs_failed_files st @ [\<lparr>ff_filename = uf_filename f, ff_error = msg\<rparr>]\<rparr>"
      by blast
    with True show ?thesis by (simp add: Cons.IH)
  next
    case False
    from bulk_file_ok [OF False, of st] obtain info where
      "bulk_file v s u f st =
         st\<lparr>bs_db := fst (add_document (bs_db st) (new_document u info)),
            bs_uploaded_files := bs_uploaded_files st @ [uf_filename f],
            bs_processing_jobs := bs_processing_jobs st @ [next_document_id (bs_db st)],
            bs_background_tasks := bs_background_tasks st @
              [\<lparr>task_document_id = next_document_id (bs_db st),
                task_file_path = fi_file_path info,
                task_mime_type = fi_mime_type info,
                task_filename = uf_filename f\<rparr>]\<rparr>"
      by blast
    with False show ?thesis by (simp add: Cons.IH)
  qed
qed

text \<open>What the loop adds for the files that do not fail: tasks, job ids and documents run in step.\<close>

lemma bulk_loop_scheduled:
  "\<exists>new. documents (bs_db (bulk_loop v s u fs st)) = documents (bs_db st) @ new \<and>
     list_all (\<lambda>r. processing_status r = ''pending'' \<and> user_id r = u) new \<and>
     bs_processing_jobs (bulk_loop v s u fs st) = bs_processing_jobs st @ map doc_id new \<and>
     map task_document_id (bs_background_tasks (bulk_loop v s u fs st)) =
       map task_document_id (bs_background_tasks st) @ map doc_id new \<and>
     map task_filename (bs_background_tasks (bulk_loop v s u fs st)) =
       map task_filename (bs_background_tasks st) @
         map uf_filename (filter (\<lambda>f. \<not> file_fails v s u f) fs)"
proof (induction fs arbitrary: st)
  case Nil
  then show ?case by simp
next
  case (Cons f fs)
  show ?case
  proof (cases "file_fails v s u f")
    case True
    from bulk_file_fails [OF True, of st] obtain msg where
      b: "bulk_file v s u f st =
         st\<lparr>bs_failed_files := bs_failed_files st @ [\<lparr>ff_filename = uf_filename f, ff_error = msg\<rparr>]\<rparr>"
      by blast
    from Cons.IH [of "bulk_file v s u f st"] True show ?thesis
      by (simp add: b)
  next
    case False
    from bulk_file_ok [OF False, of st] obtain info where
      b: "bulk_file v s u f st =
         st\<lparr>bs_db := fst (add_document (bs_db st) (new_document u info)),
            bs_uploaded_files := bs_uploaded_files st @ [uf_filename f],
            bs_processing_jobs := bs_processing_jobs st @ [next_document_id (bs_db st)],
            bs_background_tasks := bs_background_tasks st @
              [\<lparr>task_document_id = next_document_id (bs_db st),
                task_file_path = fi_file_path info,
                task_mime_type = fi_mime_type info,
                task_filename = uf_filename f\<rparr>]\<rparr>"
      by blast
    let ?r = "(new_document u info)\<lparr>doc_id := next_document_id (bs_db st)\<rparr>"
    from Cons.IH [of "bulk_file v s u f st"] obtain new where
      n: "documents (bs_db (bulk_loop v s u fs (bulk_file v s u f st))) =
            (documents (bs_db st) @ [?r]) @ new"
        "list_all (\<lambda>r. processing_status r = ''pending'' \<and> user_id r = u) new"
        "bs_processing_jobs (bulk_loop v s u fs (bulk_file v s u f st)) =
           (bs_processing_jobs st @ [next_document_id (bs_db st)]) @ map doc_id new"
        "map task_document_id (bs_background_tasks (bulk_loop v s u fs (bulk_file v s u f st))) =
           (map task_document_id (bs_background_tasks st) @ [next_document_id (bs_db st)]) @ map doc_id new"
        "map task_filename (bs_background_tasks (bulk_loop v s u fs (bulk_file v s u f st))) =
           (map task_filename (bs_background_tasks st) @ [uf_filename f]) @
             map uf_filename (filter (\<lambda>f. \<not> file_fails v s u f) fs)"
      by (auto simp: b add_document_def Let_def)
    show ?thesis
      apply (rule exI [of _ "?r # new"])
      using n False by (simp add: new_document_def)
  qed
qed

text \<open>
  Claim C5: for a batch of N files of which K fail (validation rejects them or saving
  raises), the response counts N files, N - K successes and K failures; the uploaded and
  the failed lists name the non-failing and the failing files in input order; and every
  non-failing file, wherever the failures are, has a new \<open>pending\<close> document and a
  scheduled task, in the same order.
\<close>

theorem bulk_partial_failure:
  "case upload_documents_bulk v s u files d of (resp, d', tasks) \<Rightarrow>
     total_files resp = length files \<and>
     success_count resp + failure_count resp = length files \<and>
     failure_count resp = length (filter (file_fails v s u) files) \<and>
     uploaded_files resp = map uf_filename (filter (\<lambda>f. \<not> file_fails v s u f) files) \<and>
     map ff_filename (failed_files resp) = map uf_filename (filter (file_fails v s u) files) \<and>
     map task_filename tasks = uploaded_files resp \<and>
     map task_document_id tasks = processing_jobs resp \<and>
     (\<exists>new. documents d' = documents d @ new \<and> map doc_id new = processing_jobs resp \<and>
        list_all (\<lambda>r. processing_status r = ''pending'' \<and> user_id r = u) new)"
proof -
  let ?init = "\<lparr>bs_db = d, bs_background_tasks = [], bs_uploaded_files = [],
               bs_failed_files = [], bs_processing_jobs = []\<rparr>"
  let ?fin = "bulk_loop v s u files ?init"
  have up: "bs_uploaded_files ?fin = map uf_filename (filter (\<lambda>f. \<not> file_fails v s u f) files)"
    by (simp add: bulk_loop_uploaded)
  have fl: "map ff_filename (bs_failed_files ?fin) = map uf_filename (filter (file_fails v s u) files)"
    by (simp add: bulk_loop_failed)
  have nf: "length (bs_failed_files ?fin) = length (filter (file_fails v s u) files)"
    using arg_cong [OF fl, of length] by simp
  have nu: "length (bs_uploaded_files ?fin) = length (filter (\<lambda>f. \<not> file_fails v s u f) files)"
    by (simp add: up)
  have total: "length (filter (\<lambda>f. \<not> file_fails v s u f) files) +
                 length (filter (file_fails v s u) files) = length files"
    using sum_length_filter_compl [of "file_fails v s u" files] by simp
  from bulk_loop_scheduled [of v s u files ?init] obtain new where
    n: "documents (bs_db ?fin) = documents d @ new"
       "list_all (\<lambda>r. processing_status r = ''pending'' \<and> user_id r = u) new"
       "bs_processing_jobs ?fin = map doc_id new"
       "map task_document_id (bs_background_tasks ?fin) = map doc_id new"
       "map task_filename (bs_background_tasks ?fin) =
          map uf_filename (filter (\<lambda>f. \<not> file_fails v s u f) files)"
    by auto
  show ?thesis
    using n by (simp add: upload_documents_bulk_def Let_def up fl nf total)
qed

theorem bulk_partial_failure_witness:
  "case upload_documents_bulk example_validate example_save 10 example_batch (example_db ''completed'') of
     (resp, d', tasks) \<Rightarrow>
       total_files resp = 4 \<and> success_count resp = 2 \<and> failure_count resp = 2 \<and>
       uploaded_files resp = [''b.txt'', ''d.txt''] \<and>
       map ff_filename (failed_files resp) = [''a.exe'', ''locked.txt''] \<and>
       map task_filename tasks = [''b.txt'', ''d.txt''] \<and>
       processing_jobs resp = [2, 3] \<and>
       map doc_id (documents d') = [1, 2, 3]"
  using bulk_partial_failure [where v = example_validate and s = example_save and u = 10
      and files = example_batch and d = "example_db ''completed''"]
  by (simp add: upload_documents_bulk_def bulk_file_def file_fails_def example_validate_def
      example_save_def example_batch_def example_db_def example_document_def add_document_def
      new_document_def example_info_def Let_def)

section \<open>Properties of the query engine\<close>

lemmas query_example_defs = library_db_def example_request_def terse_oracle_def
  example_document_def new_document_def example_info_def

lemma context_loop_eq:
  "context_loop d docs (cs, ss) =
     (cs @ map (\<lambda>r. take 2000 (text_of r)) (filter has_text docs),
      ss @ map (source_of d) (filter has_text docs))"
  by (induction docs arbitrary: cs ss) (auto simp: has_text_def text_of_def split: option.splits)

lemma context_documents_eq: "context_documents docs = filter has_text (take 5 docs)"
  by (simp add: context_documents_def has_text_def [abs_def])

lemma context_loop_take5:
  "context_loop d (take 5 docs) ([], []) =
     (map (\<lambda>r. take 2000 (text_of r)) (context_documents docs),
      map (source_of d) (context_documents docs))"
  by (simp add: context_loop_eq context_documents_eq)

lemma length_context_documents: "length (context_documents docs) \<le> 5"
proof -
  have "length (filter has_text (take 5 docs)) \<le> length (take 5 docs)"
    by (rule length_filter_le)
  then show ?thesis by (simp add: context_documents_eq)
qed

lemma query_candidates_none:
  "\<forall>r \<in> set (documents d). \<not> (user_id r = uid \<and> processing_status r = ''completed'') \<Longrightarrow>
     query_candidates d uid req = []"
proof -
  assume a: "\<forall>r \<in> set (documents d). \<not> (user_id r = uid \<and> processing_status r = ''completed'')"
  then have "filter (\<lambda>r. user_id r = uid \<and> processing_status r = ''completed'') (documents d) = []"
    by (simp add: filter_empty_conv)
  then show ?thesis
    by (simp add: query_candidates_def Let_def split: option.splits list.splits)
qed

lemma library_candidates:
  "query_candidates library_db 10 example_request = documents library_db"
  by (simp add: query_candidates_def query_example_defs)

lemma library_context:
  "context_documents (query_candidates library_db 10 example_request) =
     [documents library_db ! 0, documents library_db ! 2]"
  by (simp add: library_candidates) (simp add: context_documents_def query_example_defs)

text \<open>
  Claim C6: when the requester's completed documents, narrowed by the filters, are none
  (in particular when the requester has no completed document at all), the query returns
  the fixed "no documents" response with confidence 0.0 and an empty source list, and
  makes no call to the query oracle.
\<close>

theorem query_no_documents:
  assumes "query_candidates d uid req = [] \<or>
           (\<forall>r \<in> set (documents d). \<not> (user_id r = uid \<and> processing_status r = ''completed''))"
  shows "query_documents llm d uid req =
           (Inr \<lparr>query = qr_query req,
                 response = JStr ''No documents found to query. Please upload and process documents first.'',
                 confidence_score = JNum 0,
                 source_documents = [],
                 reasoning = JStr ''No documents available for analysis'',
                 suggestions = None\<rparr>, [])"
proof -
  from assms have "query_candidates d uid req = []"
    using query_candidates_none by blast
  then show ?thesis by (simp add: query_documents_def)
qed

theorem query_no_documents_witness:
  "query_candidates (example_db ''pending'') 10 example_request = [] \<and>
   fst (query_documents terse_oracle (example_db ''pending'') 10 example_request) =
     Inr \<lparr>query = ''Who signed the charter?'',
           response = JStr ''No documents found to query. Please upload and process documents first.'',
           confidence_score = JNum 0,
           source_documents = [],
           reasoning = JStr ''No documents available for analysis'',
           suggestions = None\<rparr> \<and>
   snd (query_documents terse_oracle (example_db ''pending'') 10 example_request) = []"
proof -
  have c: "query_candidates (example_db ''pending'') 10 example_request = []"
    by (simp add: query_candidates_def example_defs example_request_def)
  from query_no_documents [of "example_db ''pending''" 10 example_request terse_oracle] c
  show ?thesis by (simp add: example_request_def)
qed

text \<open>
  Claim C7: when the filtered set is not empty, the documents used as context are those
  among the first five that have text, so at most five; the one oracle call receives the
  first 2000 characters of each, in order; and a returned response cites exactly these
  documents, one \<open>{id, filename, category}\<close> entry each, in the same order.
\<close>

theorem query_context_bounded:
  assumes ne: "query_candidates d uid req \<noteq> []"
  shows "let used = context_documents (query_candidates d uid req);
             chunks = map (\<lambda>r. take 2000 (text_of r)) used
         in length used \<le> 5 \<and>
            list_all (\<lambda>c. length c \<le> 2000) chunks \<and>
            snd (query_documents llm d uid req) = [(qr_query req, chunks)] \<and>
            (case fst (query_documents llm d uid req) of
               Inl e \<Rightarrow> isl (llm (qr_query req) chunks)
             | Inr res \<Rightarrow> source_documents res = map (source_of d) used)"
proof -
  let ?used = "context_documents (query_candidates d uid req)"
  let ?chunks = "map (\<lambda>r. take 2000 (text_of r)) ?used"
  have q: "query_documents llm d uid req =
             ((case llm (qr_query req) ?chunks of
                 Inl e \<Rightarrow> Inl (HTTPException 500 (''Query processing failed: '' @ e))
               | Inr llm_response \<Rightarrow>
                   Inr \<lparr>query = qr_query req,
                        response = dict_get llm_response ''answer'' (JStr ''No response generated''),
                        confidence_score = dict_get llm_response ''confidence'' (JNum 0),
                        source_documents = map (source_of d) ?used,
                        reasoning = dict_get llm_response ''reasoning'' JNull,
                        suggestions = Some (dict_get llm_response ''suggestions'' (JList []))\<rparr>),
              [(qr_query req, ?chunks)])"
    using ne by (simp add: query_documents_def Let_def context_loop_take5)
  have b: "list_all (\<lambda>c. length c \<le> 2000) ?chunks"
    by (simp add: list_all_iff)
  show ?thesis
    unfolding Let_def
    using length_context_documents [of "query_candidates d uid req"] b
    by (simp add: q split: sum.splits)
qed

theorem query_context_bounded_witness:
  "query_candidates library_db 10 example_request \<noteq> [] \<and>
   snd (query_documents terse_oracle library_db 10 example_request) =
     [(''Who signed the charter?'', [''Charter of Acme Inc.'', ''Minutes of the board''])] \<and>
   (case fst (query_documents terse_oracle library_db 10 example_request) of
      Inl e \<Rightarrow> False
    | Inr res \<Rightarrow>
        source_documents res =
          [\<lparr>src_id = 1, src_filename = ''charter.txt'', src_category = ''Formation''\<rparr>,
           \<lparr>src_id = 3, src_filename = ''minutes.txt'', src_category = ''Uncategorized''\<rparr>])"
proof -
  have ne: "query_candidates library_db 10 example_request \<noteq> []"
    by (simp add: library_candidates) (simp add: library_db_def)
  have t: "map (\<lambda>r. take 2000 (text_of r)) [documents library_db ! 0, documents library_db ! 2] =
             [''Charter of Acme Inc.'', ''Minutes of the board'']"
    by (simp add: text_of_def query_example_defs)
  have s: "map (source_of library_db) [documents library_db ! 0, documents library_db ! 2] =
             [\<lparr>src_id = 1, src_filename = ''charter.txt'', src_category = ''Formation''\<rparr>,
              \<lparr>src_id = 3, src_filename = ''minutes.txt'', src_category = ''Uncategorized''\<rparr>]"
    by (simp add: source_of_def category_of_def query_example_defs)
  have o: "terse_oracle ''Who signed the charter?'' [''Charter of Acme Inc.'', ''Minutes of the board'']
             = Inr [''answer'' \<mapsto> JStr ''The incorporator'']"
    by (simp add: terse_oracle_def)
  have q: "qr_query example_request = ''Who signed the charter?''"
    by (simp add: example_request_def)
  from query_context_bounded [OF ne, of terse_oracle] ne show ?thesis
    unfolding Let_def library_context t s q
    by (auto simp: o split: sum.splits)
qed

text \<open>
  Claim C8: whatever subset of \<open>answer\<close>, \<open>confidence\<close>, \<open>reasoning\<close> and \<open>suggestions\<close>
  the oracle's response lacks, the query returns a response, not an error, in which a
  missing answer is the fixed fallback text, a missing confidence is 0.0, a missing
  reasoning is null and missing suggestions are the empty list; fields that are present
  are passed through.
\<close>

theorem query_defaults:
  assumes ne: "query_candidates d uid req \<noteq> []"
      and m: "llm (qr_query req)
                (map (\<lambda>r. take 2000 (text_of r)) (context_documents (query_candidates d uid req))) =
              Inr m"
  shows "\<exists>res. fst (query_documents llm d uid req) = Inr res \<and>
           response res = (case m ''answer'' of None \<Rightarrow> JStr ''No response generated'' | Some v \<Rightarrow> v) \<and>
           confidence_score res = (case m ''confidence'' of None \<Rightarrow> JNum 0 | Some v \<Rightarrow> v) \<and>
           reasoning res = (case m ''reasoning'' of None \<Rightarrow> JNull | Some v \<Rightarrow> v) \<and>
           suggestions res = Some (case m ''suggestions'' of None \<Rightarrow> JList [] | Some v \<Rightarrow> v) \<and>
           query res = qr_query req"
  using ne m by (simp add: query_documents_def Let_def context_loop_take5 dict_get_def)

theorem query_defaults_witness:
  "query_candidates library_db 10 example_request \<noteq> [] \<and>
   (\<exists>res. fst (query_documents terse_oracle library_db 10 example_request) = Inr res \<and>
      response res = JStr ''The incorporator'' \<and> confidence_score res = JNum 0 \<and>
      reasoning res = JNull \<and> suggestions res = Some (JList []))"
proof -
  have ne: "query_candidates library_db 10 example_request \<noteq> []"
    by (simp add: library_candidates) (simp add: library_db_def)
  have o: "terse_oracle (qr_query example_request)
             (map (\<lambda>r. take 2000 (text_of r))
                (context_documents (query_candidates library_db 10 example_request)))
             = Inr [''answer'' \<mapsto> JStr ''The incorporator'']"
    by (simp add: terse_oracle_def)
  from query_defaults [where llm = terse_oracle and d = library_db and uid = 10
      and req = example_request and m = "[''answer'' \<mapsto> JStr ''The incorporator'']", OF ne o] ne
  show ?thesis by auto
qed

section \<open>Properties of category seeding\<close>

lemma category_names_flush:
  "category_names (flush d p) = category_names d @ map cd_name p"
  unfolding flush_def
  by (induction p arbitrary: d) (simp_all add: category_names_def insert_category_def)

lemma flush_append: "flush d (p @ q) = flush (flush d p) q"
  by (simp add: flush_def)

lemma flush_Nil: "flush d [] = d"
  by (simp add: flush_def)

lemma categories_flush:
  "\<exists>rows. categories (flush d p) = categories d @ rows \<and> map cat_name rows = map cd_name p"
proof (induction p arbitrary: d)
  case Nil
  then show ?case by (simp add: flush_def)
next
  case (Cons c p)
  from Cons [of "insert_category d c"] obtain rows where
    "categories (flush (insert_category d c) p) = categories (insert_category d c) @ rows"
    "map cat_name rows = map cd_name p" by blast
  then show ?case
    by (simp add: flush_def insert_category_def)
qed

lemma find_name_None:
  "(find (\<lambda>k. cat_name k = n) (categories d) = None) = (n \<notin> set (category_names d))"
  by (auto simp: find_None_iff category_names_def)

lemma find_name_Some:
  "find (\<lambda>k. cat_name k = n) (categories d) = Some x \<Longrightarrow> n \<in> set (category_names d)"
  using find_name_None [of n d] by simp

lemma seed_result_Nil: "seed_result af [] (d, p) = flush d p"
  by (simp add: seed_result_def)

lemma seed_result_Cons:
  "seed_result af (c # cs) (d, p) =
     (if af then
        (if cd_name c \<in> set (category_names (flush d p)) then seed_result af cs (flush d p, [])
         else seed_result af cs (flush d p, [c]))
      else
        (if cd_name c \<in> set (category_names d) then seed_result af cs (d, p)
         else seed_result af cs (d, p @ [c])))"
  by (auto simp: seed_result_def find_name_None split: option.splits dest: find_name_Some)

lemma seed_result_added:
  "\<exists>added. seed_result af cs (d, p) = flush d (p @ added) \<and>
     (\<forall>c \<in> set added. cd_name c \<notin> set (category_names d))"
proof (induction cs arbitrary: d p)
  case Nil
  show ?case by (rule exI [of _ "[]"]) (simp add: seed_result_Nil)
next
  case (Cons c cs)
  show ?case
  proof (cases af)
    case True
    show ?thesis
    proof (cases "cd_name c \<in> set (category_names (flush d p))")
      case in_db: True
      from Cons [of "flush d p" "[]"] obtain added where
        a: "seed_result af cs (flush d p, []) = flush (flush d p) ([] @ added)"
           "\<forall>c \<in> set added. cd_name c \<notin> set (category_names (flush d p))" by blast
      show ?thesis
        by (rule exI [of _ added])
           (use a True in_db in \<open>simp add: seed_result_Cons flush_append category_names_flush\<close>)
    next
      case not_in_db: False
      from Cons [of "flush d p" "[c]"] obtain added where
        a: "seed_result af cs (flush d p, [c]) = flush (flush d p) ([c] @ added)"
           "\<forall>c \<in> set added. cd_name c \<notin> set (category_names (flush d p))" by blast
      show ?thesis
        by (rule exI [of _ "c # added"])
           (use a True not_in_db in \<open>simp add: seed_result_Cons flush_append [symmetric] category_names_flush\<close>)
    qed
  next
    case False
    show ?thesis
    proof (cases "cd_name c \<in> set (category_names d)")
      case in_db: True
      from Cons [of d p] obtain added where
        a: "seed_result af cs (d, p) = flush d (p @ added)"
           "\<forall>c \<in> set added. cd_name c \<notin> set (category_names d)" by blast
      show ?thesis
        by (rule exI [of _ added]) (use a False in_db in \<open>simp add: seed_result_Cons\<close>)
    next
      case not_in_db: False
      from Cons [of d "p @ [c]"] obtain added where
        a: "seed_result af cs (d, p @ [c]) = flush d ((p @ [c]) @ added)"
           "\<forall>c \<in> set added. cd_name c \<notin> set (category_names d)" by blast
      show ?thesis
        by (rule exI [of _ "c # added"]) (use a False not_in_db in \<open>simp add: seed_result_Cons\<close>)
    qed
  qed
qed

lemma seed_result_names:
  "set (category_names d) \<union> set (map cd_name p) \<union> set (map cd_name cs)
     \<subseteq> set (category_names (seed_result af cs (d, p)))"
proof (induction cs arbitrary: d p)
  case Nil
  show ?case by (simp add: seed_result_Nil category_names_flush)
next
  case (Cons c cs)
  show ?case
  proof (cases af)
    case True
    show ?thesis
    proof (cases "cd_name c \<in> set (category_names (flush d p))")
      case in_db: True
      have "seed_result af (c # cs) (d, p) = seed_result af cs (flush d p, [])"
        using True in_db by (simp add: seed_result_Cons)
      with Cons [of "flush d p" "[]"] in_db show ?thesis
        by (auto simp: category_names_flush)
    next
      case not_in_db: False
      have "seed_result af (c # cs) (d, p) = seed_result af cs (flush d p, [c])"
        using True not_in_db by (simp add: seed_result_Cons)
      with Cons [of "flush d p" "[c]"] show ?thesis
        by (auto simp: category_names_flush)
    qed
  next
    case False
    show ?thesis
    proof (cases "cd_name c \<in> set (category_names d)")
      case in_db: True
      have "seed_result af (c # cs) (d, p) = seed_result af cs (d, p)"
        using False in_db by (simp add: seed_result_Cons)
      with Cons [of d p] in_db show ?thesis by auto
    next
      case not_in_db: False
      have "seed_result af (c # cs) (d, p) = seed_result af cs (d, p @ [c])"
        using False not_in_db by (simp add: seed_result_Cons)
      with Cons [of d "p @ [c]"] show ?thesis by auto
    qed
  qed
qed

lemma seed_loop_present:
  "set (map cd_name cs) \<subseteq> set (category_names d) \<Longrightarrow> seed_loop af cs (d, []) = (d, [])"
  by (induction cs) (auto simp: flush_Nil find_name_None split: option.splits)

lemma init_seed_result: "init_document_categories af d = seed_result af default_categories (d, [])"
  by (simp add: init_document_categories_def seed_result_def)

text \<open>
  Claim C9: seeding a store that has just been seeded changes nothing, and for a name the
  store already has, the categories of that name after seeding are exactly those before:
  none is added. Both hold whether or not the session flushes before its queries.
\<close>

theorem seed_idempotent:
  "init_document_categories af (init_document_categories af d) = init_document_categories af d \<and>
   (\<forall>n \<in> set (category_names d).
      filter (\<lambda>c. cat_name c = n) (categories (init_document_categories af d)) =
      filter (\<lambda>c. cat_name c = n) (categories d))"
proof
  let ?d1 = "init_document_categories af d"
  have "set (map cd_name default_categories) \<subseteq> set (category_names ?d1)"
    using seed_result_names [of d "[]" default_categories af] by (simp add: init_seed_result)
  then have "seed_loop af default_categories (?d1, []) = (?d1, [])"
    by (rule seed_loop_present)
  then show "init_document_categories af ?d1 = ?d1"
    by (simp add: init_document_categories_def [of af ?d1] flush_Nil)
next
  from seed_result_added [of af default_categories d "[]"] obtain added where
    a: "init_document_categories af d = flush d added"
       "\<forall>c \<in> set added. cd_name c \<notin> set (category_names d)"
    by (auto simp: init_seed_result)
  from categories_flush [of d added] obtain rows where
    r: "categories (flush d added) = categories d @ rows" "map cat_name rows = map cd_name added"
    by blast
  show "\<forall>n \<in> set (category_names d).
      filter (\<lambda>c. cat_name c = n) (categories (init_document_categories af d)) =
      filter (\<lambda>c. cat_name c = n) (categories d)"
  proof
    fix n assume n: "n \<in> set (category_names d)"
    have "n \<notin> set (map cd_name added)" using a(2) n by auto
    then have "n \<notin> set (map cat_name rows)" by (simp add: r(2))
    then have "filter (\<lambda>c. cat_name c = n) rows = []"
      by (auto simp: filter_empty_conv)
    then show "filter (\<lambda>c. cat_name c = n) (categories (init_document_categories af d)) =
      filter (\<lambda>c. cat_name c = n) (categories d)"
      by (simp add: a(1) r(1))
  qed
qed

theorem seed_idempotent_witness:
  "''Formation'' \<in> set (category_names (example_db ''pending'')) \<and>
   filter (\<lambda>c. cat_name c = ''Formation'')
     (categories (init_document_categories True (example_db ''pending''))) =
     [\<lparr>cat_id = 1, cat_name = ''Formation'', cat_description = None, cat_keywords = JNull\<rparr>] \<and>
   category_names (init_document_categories True (example_db ''pending'')) =
     [''Formation'', ''Governance'', ''Directors & Officers'', ''Cap Table'', ''Employees'',
      ''Intellectual Property'', ''Compliance''] \<and>
   init_document_categories True (init_document_categories True (example_db ''pending'')) =
     init_document_categories True (example_db ''pending'')"
proof -
  have m: "''Formation'' \<in> set (category_names (example_db ''pending''))"
    by (simp add: category_names_def example_db_def)
  have n: "category_names (init_document_categories True (example_db ''pending'')) =
     [''Formation'', ''Governance'', ''Directors & Officers'', ''Cap Table'', ''Employees'',
      ''Intellectual Property'', ''Compliance'']"
    by code_simp
  have f: "filter (\<lambda>c. cat_name c = ''Formation'') (categories (example_db ''pending'')) =
     [\<lparr>cat_id = 1, cat_name = ''Formation'', cat_description = None, cat_keywords = JNull\<rparr>]"
    by (simp add: example_db_def)
  from seed_idempotent [of True "example_db ''pending''"] m n f show ?thesis
    by auto
qed

section \<open>Properties of the running system\<close>

lemma remove_nth_decomp:
  "k < length xs \<Longrightarrow> \<exists>ys zs. xs = ys @ xs ! k # zs \<and> remove_nth k xs = ys @ zs"
  unfolding remove_nth_def
  by (rule exI [of _ "take k xs"], rule exI [of _ "drop (Suc k) xs"])
     (simp add: id_take_nth_drop [symmetric])

lemma notin_imageD: "i \<notin> f ` A \<Longrightarrow> t \<in> A \<Longrightarrow> f t \<noteq> i"
  by auto

lemma commit_documents:
  "documents (commit_document d obj) =
     map (\<lambda>r. if doc_id r = doc_id obj then obj else r) (documents d)"
  and commit_next_id: "next_document_id (commit_document d obj) = next_document_id d"
  by (simp_all add: commit_document_def)

lemma in_commit:
  "x \<in> set (documents (commit_document d obj)) \<Longrightarrow>
     (x \<in> set (documents d) \<and> doc_id x \<noteq> doc_id obj) \<or>
     (x = obj \<and> (\<exists>r \<in> set (documents d). doc_id r = doc_id obj))"
  by (auto simp: commit_documents split: if_splits)

lemma first_document_in:
  "first_document d i = Some r \<Longrightarrow> r \<in> set (documents d) \<and> doc_id r = i"
  unfolding first_document_def by (auto simp: find_Some_iff)

lemma first_document_None:
  "first_document d i = None \<Longrightarrow> \<forall>r \<in> set (documents d). doc_id r \<noteq> i"
  by (auto simp: first_document_def find_None_iff)

text \<open>The rows after a commit of the run's session: the other documents' rows as they
  were, and the run's row with its assignments.\<close>

lemma in_session_commit:
  assumes x: "x \<in> set (documents (session_commit d i g))"
      and g: "\<forall>row. doc_id (g row) = doc_id row"
  shows "(x \<in> set (documents d) \<and> doc_id x \<noteq> i) \<or>
         (\<exists>row \<in> set (documents d). doc_id row = i \<and> x = g row)"
proof (cases "first_document d i")
  case None
  with x first_document_None [OF None] show ?thesis by (auto simp: session_commit_def)
next
  case (Some row)
  from first_document_in [OF Some] have row: "row \<in> set (documents d)" "doc_id row = i"
    by simp_all
  from x Some have "x \<in> set (documents (commit_document d (g row)))"
    by (simp add: session_commit_def)
  from in_commit [OF this] g row show ?thesis by auto
qed

lemma session_commit_next_id:
  "next_document_id (session_commit d i g) = next_document_id d"
  by (simp add: session_commit_def commit_next_id split: option.splits)

lemma session_commit_ids:
  "\<forall>row. doc_id (g row) = doc_id row \<Longrightarrow>
     map doc_id (documents (session_commit d i g)) = map doc_id (documents d)"
  by (simp add: session_commit_def commit_documents split: option.splits)

lemma session_commit_categories: "categories (session_commit d i g) = categories d"
  by (simp add: session_commit_def categories_commit split: option.splits)

text \<open>The forms the rest of a run takes: nothing is written, or one commit of the session
  that ends the document \<open>completed\<close> or \<open>failed\<close>.\<close>

lemma finish_processing_forms:
  "finish_processing b ex cl now d i p m f = d \<or>
   (\<exists>g. finish_processing b ex cl now d i p m f = session_commit d i g \<and>
        (\<forall>row. doc_id (g row) = doc_id row \<and>
               (processing_status (g row) = ''completed'' \<or> processing_status (g row) = ''failed'')))"
proof (cases "ex p m")
  case (Inl e)
  show ?thesis
    by (rule disjI2,
        rule exI [of _ "\<lambda>row. row\<lparr>processing_status := ''failed'', processing_error := Some e\<rparr>"])
       (simp add: finish_processing_def Inl record_failure_def)
next
  case (Inr extracted)
  show ?thesis
  proof (cases "cl extracted f")
    case (Inl e)
    show ?thesis
      by (rule disjI2,
          rule exI [of _ "\<lambda>row. row\<lparr>extracted_text := Some extracted, processing_status := ''failed'',
                                   processing_error := Some e\<rparr>"])
         (simp add: finish_processing_def Inl Inr record_failure_def)
  next
    case res: (Inr res)
    show ?thesis
    proof (cases "resolve_category b d res")
      case (Inl e)
      show ?thesis
      proof (cases "aborts_on_error b")
        case True
        then show ?thesis by (simp add: finish_processing_def Inl Inr res)
      next
        case False
        show ?thesis
          by (rule disjI2,
              rule exI [of _ "\<lambda>row. row\<lparr>extracted_text := Some extracted, processing_status := ''failed'',
                                       processing_error := Some e\<rparr>"])
             (simp add: finish_processing_def Inl Inr res record_failure_def False)
      qed
    next
      case found: (Inr found)
      show ?thesis
      proof (cases "bind_error b res")
        case None
        show ?thesis
          by (rule disjI2,
              rule exI [of _ "\<lambda>row. apply_classification found res now
                                       (row\<lparr>extracted_text := Some extracted\<rparr>)"])
             (simp add: finish_processing_def found Inr res None apply_classification_id
                apply_classification_status)
      next
        case (Some e)
        then show ?thesis
          by (simp add: finish_processing_def found Inr res)
      qed
    qed
  qed
qed

lemma calls_for_append:
  "calls_for (lg @ extra) i = calls_for lg i @ calls_for extra i"
  by (simp add: calls_for_def)

lemma calls_for_other:
  "\<forall>c \<in> set extra. oc_document_id c \<noteq> i \<Longrightarrow> calls_for extra i = []"
  by (auto simp: calls_for_def filter_empty_conv)

lemma doc_ok_log_other:
  "doc_ok lg r \<Longrightarrow> \<forall>c \<in> set extra. oc_document_id c \<noteq> doc_id r \<Longrightarrow> doc_ok (lg @ extra) r"
  by (simp add: doc_ok_def calls_for_append calls_for_other)

lemma doc_ok_not_completed:
  "doc_ok lg r \<Longrightarrow> processing_status r \<noteq> ''completed'' \<Longrightarrow> doc_ok lg' r"
  by (simp add: doc_ok_def)

text \<open>The start of a waiting task whose document exists keeps the invariant.\<close>

lemma inv_start:
  assumes inv: "sys_inv s"
      and k: "k < length (sys_scheduled s)"
      and r: "first_document (sys_db s) (task_document_id (sys_scheduled s ! k)) = Some r"
  shows "sys_inv (s\<lparr>sys_db := commit_document (sys_db s) (r\<lparr>processing_status := ''processing''\<rparr>),
                    sys_scheduled := remove_nth k (sys_scheduled s),
                    sys_running := sys_running s @ [sys_scheduled s ! k]\<rparr>)"
proof -
  let ?t = "sys_scheduled s ! k"
  let ?i = "task_document_id ?t"
  let ?obj = "r\<lparr>processing_status := ''processing''\<rparr>"
  let ?s' = "s\<lparr>sys_db := commit_document (sys_db s) ?obj,
               sys_scheduled := remove_nth k (sys_scheduled s),
               sys_running := sys_running s @ [?t]\<rparr>"
  from remove_nth_decomp [OF k] obtain ys zs where
    sc: "sys_scheduled s = ys @ ?t # zs" and rm: "remove_nth k (sys_scheduled s) = ys @ zs"
    by blast
  from first_document_in [OF r] have rin: "r \<in> set (documents (sys_db s))" and ri: "doc_id r = ?i"
    by simp_all
  have tin: "?t \<in> set (sys_scheduled s)" using k by simp
  from inv have d: "docs_ok s" and sch: "sched_ok s" and ru: "run_ok s" and ids: "ids_ok s"
    by (simp_all add: sys_inv_def)
  have rp: "processing_status r = ''pending''"
    using sch tin rin ri by (auto simp: sched_ok_def)
  have rok: "processing_error r = None \<and> category_id r = None \<and> doc_id r < next_document_id (sys_db s)"
    using d rin rp by (auto simp: docs_ok_def doc_ok_def)
  have dist: "distinct (map task_document_id ys @ ?i # map task_document_id zs @
                map task_document_id (sys_running s))"
    using ids unfolding ids_ok_def task_ids_def by (subst (asm) sc) simp
  have notin: "?i \<notin> task_document_id ` (set ys \<union> set zs)"
    and notin_run: "?i \<notin> task_document_id ` set (sys_running s)"
    using dist by (auto simp: image_iff)
  have d': "docs_ok ?s'"
    unfolding docs_ok_def
  proof
    fix x assume "x \<in> set (documents (sys_db ?s'))"
    then have "x \<in> set (documents (commit_document (sys_db s) ?obj))" by simp
    from in_commit [OF this] show "doc_id x < next_document_id (sys_db ?s') \<and> doc_ok (sys_oracle_log ?s') x"
    proof
      assume "x \<in> set (documents (sys_db s)) \<and> doc_id x \<noteq> doc_id ?obj"
      with d show ?thesis by (simp add: docs_ok_def commit_next_id)
    next
      assume "x = ?obj \<and> (\<exists>r \<in> set (documents (sys_db s)). doc_id r = doc_id ?obj)"
      with rok show ?thesis by (simp add: commit_next_id doc_ok_def)
    qed
  qed
  have sch': "sched_ok ?s'"
    unfolding sched_ok_def
  proof (intro ballI impI)
    fix t x assume t: "t \<in> set (sys_scheduled ?s')" and x: "x \<in> set (documents (sys_db ?s'))"
      and e: "doc_id x = task_document_id t"
    from t have t': "t \<in> set ys \<union> set zs" by (simp add: rm)
    have ne: "task_document_id t \<noteq> ?i" by (rule notin_imageD [OF notin t'])
    from x have "x \<in> set (documents (commit_document (sys_db s) ?obj))" by simp
    from in_commit [OF this] e ne ri have "x \<in> set (documents (sys_db s))" by auto
    moreover from t' have "t \<in> set (sys_scheduled s)" by (subst sc) auto
    ultimately show "processing_status x = ''pending''"
      using sch e by (auto simp: sched_ok_def)
  qed
  have ru': "run_ok ?s'"
    unfolding run_ok_def
  proof (intro ballI impI)
    fix t x assume m: "t \<in> set (sys_running ?s')" and x: "x \<in> set (documents (sys_db ?s'))"
      and e: "doc_id x = task_document_id t"
    from x have xc: "x \<in> set (documents (commit_document (sys_db s) ?obj))" by simp
    from m consider "t \<in> set (sys_running s)" | "t = ?t" by auto
    then show "processing_status x = ''processing''"
    proof cases
      case 1
      have ne: "task_document_id t \<noteq> ?i" by (rule notin_imageD [OF notin_run 1])
      from in_commit [OF xc] e ne ri have "x \<in> set (documents (sys_db s))" by auto
      with ru 1 e show ?thesis by (auto simp: run_ok_def)
    next
      case 2
      from in_commit [OF xc] e 2 ri have "x = ?obj" by auto
      then show ?thesis by simp
    qed
  qed
  have tids: "task_ids ?s' = map task_document_id ys @ map task_document_id zs @
                map task_document_id (sys_running s) @ [?i]"
    by (simp add: task_ids_def rm)
  have tids0: "task_ids s = map task_document_id ys @ ?i # map task_document_id zs @
                map task_document_id (sys_running s)"
    unfolding task_ids_def by (subst sc) simp
  have ids': "ids_ok ?s'"
    using ids dist unfolding ids_ok_def tids tids0
    by (auto simp: commit_next_id)
  show ?thesis
    unfolding sys_inv_def using d' sch' ru' ids' by simp
qed

text \<open>The end of a run keeps the invariant, when the rows of other documents stay and the
  run's own rows are as the invariant asks.\<close>

lemma inv_finish:
  assumes inv: "sys_inv s"
      and k: "k < length (sys_running s)"
      and keep: "\<forall>x \<in> set (documents d'). doc_id x \<noteq> task_document_id (sys_running s ! k) \<longrightarrow>
                   x \<in> set (documents (sys_db s))"
      and mine: "\<forall>x \<in> set (documents d'). doc_id x = task_document_id (sys_running s ! k) \<longrightarrow>
                   doc_ok (sys_oracle_log s @ extra) x"
      and nxt: "next_document_id d' = next_document_id (sys_db s)"
      and ex: "\<forall>c \<in> set extra. oc_document_id c = task_document_id (sys_running s ! k) \<and> lookup_ok c"
  shows "sys_inv (s\<lparr>sys_db := d',
                    sys_running := remove_nth k (sys_running s),
                    sys_oracle_log := sys_oracle_log s @ extra\<rparr>)"
proof -
  let ?t = "sys_running s ! k"
  let ?i = "task_document_id ?t"
  let ?s' = "s\<lparr>sys_db := d',
               sys_running := remove_nth k (sys_running s),
               sys_oracle_log := sys_oracle_log s @ extra\<rparr>"
  from remove_nth_decomp [OF k] obtain ys zs where
    rn: "sys_running s = ys @ ?t # zs" and rm: "remove_nth k (sys_running s) = ys @ zs"
    by blast
  from inv have d: "docs_ok s" and sch: "sched_ok s" and ru: "run_ok s" and ids: "ids_ok s"
    by (simp_all add: sys_inv_def)
  have tids0: "task_ids s = map task_document_id (sys_scheduled s) @
                 map task_document_id ys @ ?i # map task_document_id zs"
    unfolding task_ids_def by (subst rn) simp
  have tids: "task_ids ?s' = map task_document_id (sys_scheduled s) @
                 map task_document_id ys @ map task_document_id zs"
    by (simp add: task_ids_def rm)
  have dist: "distinct (map task_document_id (sys_scheduled s) @
                 map task_document_id ys @ ?i # map task_document_id zs)"
    using ids unfolding ids_ok_def tids0 by simp
  have notin_sched: "?i \<notin> task_document_id ` set (sys_scheduled s)"
    and notin_run: "?i \<notin> task_document_id ` (set ys \<union> set zs)"
    using dist by (auto simp: image_iff)
  have ilt: "?i < next_document_id (sys_db s)"
    using ids unfolding ids_ok_def tids0 by simp
  have d': "docs_ok ?s'"
    unfolding docs_ok_def
  proof
    fix x assume x: "x \<in> set (documents (sys_db ?s'))"
    show "doc_id x < next_document_id (sys_db ?s') \<and> doc_ok (sys_oracle_log ?s') x"
    proof (cases "doc_id x = ?i")
      case True
      with mine x ilt show ?thesis by (simp add: nxt)
    next
      case False
      with keep x have "x \<in> set (documents (sys_db s))" by simp
      with d have o: "doc_id x < next_document_id (sys_db s)" "doc_ok (sys_oracle_log s) x"
        by (simp_all add: docs_ok_def)
      from False ex have "\<forall>c \<in> set extra. oc_document_id c \<noteq> doc_id x" by auto
      from doc_ok_log_other [OF o(2) this] o(1) show ?thesis by (simp add: nxt)
    qed
  qed
  have sch': "sched_ok ?s'"
    unfolding sched_ok_def
  proof (intro ballI impI)
    fix u x assume u: "u \<in> set (sys_scheduled ?s')" and x: "x \<in> set (documents (sys_db ?s'))"
      and e: "doc_id x = task_document_id u"
    from u have u': "u \<in> set (sys_scheduled s)" by simp
    have ne: "task_document_id u \<noteq> ?i" by (rule notin_imageD [OF notin_sched u'])
    with keep x e have "x \<in> set (documents (sys_db s))" by simp
    with u' show "processing_status x = ''pending''"
      using sch e by (auto simp: sched_ok_def)
  qed
  have ru': "run_ok ?s'"
    unfolding run_ok_def
  proof (intro ballI impI)
    fix u x assume m: "u \<in> set (sys_running ?s')" and x: "x \<in> set (documents (sys_db ?s'))"
      and e: "doc_id x = task_document_id u"
    from m have m': "u \<in> set ys \<union> set zs" by (simp add: rm)
    have ne: "task_document_id u \<noteq> ?i" by (rule notin_imageD [OF notin_run m'])
    with keep x e have xin: "x \<in> set (documents (sys_db s))" by simp
    from m' have "u \<in> set (sys_running s)" by (subst rn) auto
    with ru xin e show "processing_status x = ''processing''" by (auto simp: run_ok_def)
  qed
  have sub: "set (task_ids ?s') \<subseteq> set (task_ids s)"
    unfolding tids tids0 by auto
  have inot: "?i \<notin> set (task_ids ?s')"
    using dist unfolding tids by auto
  have ids': "ids_ok ?s'"
    unfolding ids_ok_def
  proof (intro conjI ballI)
    show "distinct (task_ids ?s')" using dist unfolding tids by simp
  next
    fix j assume "j \<in> set (task_ids ?s')"
    with sub have "j \<in> set (task_ids s)" by auto
    with ids show "j < next_document_id (sys_db ?s')"
      by (simp add: ids_ok_def nxt)
  next
    fix c assume "c \<in> set (sys_oracle_log ?s')"
    then consider "c \<in> set (sys_oracle_log s)" | "c \<in> set extra" by auto
    then have "oc_document_id c < next_document_id (sys_db s) \<and>
               oc_document_id c \<notin> set (task_ids ?s') \<and> lookup_ok c"
    proof cases
      case 1
      with ids have "oc_document_id c < next_document_id (sys_db s)"
        "oc_document_id c \<notin> set (task_ids s)" "lookup_ok c"
        by (simp_all add: ids_ok_def)
      with sub show ?thesis by auto
    next
      case 2
      with ex have "oc_document_id c = ?i" "lookup_ok c" by simp_all
      with ilt inot show ?thesis by simp
    qed
    then show "oc_document_id c < next_document_id (sys_db ?s')"
      and "oc_document_id c \<notin> set (task_ids ?s')" and "lookup_ok c"
      by (simp_all add: nxt)
  qed
  show ?thesis
    unfolding sys_inv_def using d' sch' ru' ids' by simp
qed

text \<open>What a run logs: at most one call, for its own document, with the lookup the run made.\<close>

lemma resolve_lookup_ok:
  "lookup_ok \<lparr>oc_document_id = i, oc_result = res, oc_categories = categories d,
              oc_lookup = resolve_category b d res\<rparr>"
  by (simp add: lookup_ok_def resolve_category_def first_category_named_def)

lemma classification_calls_ok:
  "\<forall>c \<in> set (classification_calls b ex cl d t).
     oc_document_id c = task_document_id t \<and> lookup_ok c"
  by (auto simp: classification_calls_def resolve_lookup_ok split: sum.splits)

lemma doc_ok_classified:
  assumes p: "processing_status row = ''processing''"
      and o: "doc_ok lg row"
      and l: "calls_for lg (doc_id row) = []"
  shows "doc_ok (lg @ [\<lparr>oc_document_id = doc_id row, oc_result = res, oc_categories = cs,
                        oc_lookup = Inr found\<rparr>])
           (apply_classification found res now (row\<lparr>extracted_text := Some extracted\<rparr>))"
proof -
  from p o have c: "category_id row = None" "processing_error row = None"
    by (simp_all add: doc_ok_def)
  show ?thesis
    using c l
    by (cases found)
       (simp_all add: doc_ok_def apply_classification_def written_from_def calls_for_append,
        simp_all add: calls_for_def)
qed

lemma session_mine:
  assumes rows: "\<forall>row \<in> set (documents d). doc_id row = i \<longrightarrow>
                   processing_status row = ''processing'' \<and> doc_ok lg row"
      and x: "x \<in> set (documents (session_commit d i g))"
      and xi: "doc_id x = i"
      and g: "\<forall>row. doc_id (g row) = doc_id row"
      and ok: "\<And>row. processing_status row = ''processing'' \<Longrightarrow> doc_ok lg row \<Longrightarrow>
                 doc_id row = i \<Longrightarrow> doc_ok lg' (g row)"
  shows "doc_ok lg' x"
proof -
  from in_session_commit [OF x g] xi obtain row where
    "row \<in> set (documents d)" "doc_id row = i" "x = g row" by auto
  with rows ok show ?thesis by auto
qed

lemma same_mine:
  assumes rows: "\<forall>row \<in> set (documents d). doc_id row = i \<longrightarrow>
                   processing_status row = ''processing'' \<and> doc_ok lg row"
      and x: "x \<in> set (documents d)"
      and xi: "doc_id x = i"
  shows "doc_ok lg' x"
proof -
  from rows x xi have "processing_status x = ''processing''" "doc_ok lg x" by simp_all
  then show ?thesis by (auto intro: doc_ok_not_completed)
qed

lemma doc_ok_failed:
  "doc_ok lg (row\<lparr>processing_status := ''failed'', processing_error := Some e\<rparr>)"
  by (simp add: doc_ok_def)

text \<open>The rows a run leaves for its document are as the invariant asks.\<close>

lemma finish_mine:
  assumes rows: "\<forall>row \<in> set (documents d). doc_id row = task_document_id t \<longrightarrow>
                   processing_status row = ''processing'' \<and> doc_ok lg row"
      and l: "calls_for lg (task_document_id t) = []"
      and x: "x \<in> set (documents (finish_processing b ex cl now d (task_document_id t)
                 (task_file_path t) (task_mime_type t) (task_filename t)))"
      and xi: "doc_id x = task_document_id t"
  shows "doc_ok (lg @ classification_calls b ex cl d t) x"
proof (cases "ex (task_file_path t) (task_mime_type t)")
  case (Inl e)
  from x have x': "x \<in> set (documents (session_commit d (task_document_id t)
      (\<lambda>row. row\<lparr>processing_status := ''failed'', processing_error := Some e\<rparr>)))"
    by (simp add: finish_processing_def Inl record_failure_def)
  have "doc_ok (lg @ []) x"
    by (rule session_mine [OF rows x' xi]) (simp_all add: doc_ok_failed)
  then show ?thesis by (simp add: classification_calls_def Inl)
next
  case (Inr extracted)
  show ?thesis
  proof (cases "cl extracted (task_filename t)")
    case (Inl e)
    from x have x': "x \<in> set (documents (session_commit d (task_document_id t)
        (\<lambda>row. row\<lparr>extracted_text := Some extracted, processing_status := ''failed'',
                   processing_error := Some e\<rparr>)))"
      by (simp add: finish_processing_def Inl Inr record_failure_def)
    have "doc_ok (lg @ []) x"
      by (rule session_mine [OF rows x' xi]) (simp_all add: doc_ok_def)
    then show ?thesis by (simp add: classification_calls_def Inl Inr)
  next
    case res: (Inr res)
    let ?c = "\<lparr>oc_document_id = task_document_id t, oc_result = res,
               oc_categories = categories d, oc_lookup = resolve_category b d res\<rparr>"
    have calls: "classification_calls b ex cl d t = [?c]"
      by (simp add: classification_calls_def Inr res)
    show ?thesis
    proof (cases "resolve_category b d res")
      case (Inl e)
      show ?thesis
      proof (cases "aborts_on_error b")
        case True
        with x have "x \<in> set (documents d)"
          by (simp add: finish_processing_def Inl Inr res)
        from same_mine [OF rows this xi] show ?thesis .
      next
        case False
        with x have x': "x \<in> set (documents (session_commit d (task_document_id t)
            (\<lambda>row. row\<lparr>extracted_text := Some extracted, processing_status := ''failed'',
                      processing_error := Some e\<rparr>)))"
          by (simp add: finish_processing_def Inl Inr res record_failure_def)
        show ?thesis
          by (rule session_mine [OF rows x' xi]) (simp_all add: doc_ok_def)
      qed
    next
      case found: (Inr found)
      show ?thesis
      proof (cases "bind_error b res")
        case (Some e)
        with x have "x \<in> set (documents d)"
          by (simp add: finish_processing_def found Inr res)
        from same_mine [OF rows this xi] show ?thesis .
      next
        case None
        with x have x': "x \<in> set (documents (session_commit d (task_document_id t)
            (\<lambda>row. apply_classification found res now (row\<lparr>extracted_text := Some extracted\<rparr>))))"
          by (simp add: finish_processing_def found Inr res)
        have "doc_ok (lg @ [?c]) x"
        proof (rule session_mine [OF rows x' xi])
          show "\<forall>row. doc_id (apply_classification found res now (row\<lparr>extracted_text := Some extracted\<rparr>)) =
                  doc_id row"
            by (simp add: apply_classification_id)
        next
          fix row assume p: "processing_status row = ''processing''" and o: "doc_ok lg row"
            and i: "doc_id row = task_document_id t"
          from l i have l': "calls_for lg (doc_id row) = []" by simp
          from doc_ok_classified [OF p o l', of res "categories d" found now extracted]
          show "doc_ok (lg @ [?c])
                  (apply_classification found res now (row\<lparr>extracted_text := Some extracted\<rparr>))"
            by (simp add: i found)
        qed
        then show ?thesis by (simp only: calls)
      qed
    qed
  qed
qed

lemma finish_keep:
  assumes x: "x \<in> set (documents (finish_processing b ex cl now d i p m f))"
      and ne: "doc_id x \<noteq> i"
  shows "x \<in> set (documents d)"
proof -
  from finish_processing_forms [of b ex cl now d i p m f] show ?thesis
  proof
    assume "finish_processing b ex cl now d i p m f = d"
    with x show ?thesis by simp
  next
    assume "\<exists>g. finish_processing b ex cl now d i p m f = session_commit d i g \<and>
        (\<forall>row. doc_id (g row) = doc_id row \<and>
               (processing_status (g row) = ''completed'' \<or> processing_status (g row) = ''failed''))"
    then obtain g where e: "finish_processing b ex cl now d i p m f = session_commit d i g"
      and g: "\<forall>row. doc_id (g row) = doc_id row" by auto
    from x e have "x \<in> set (documents (session_commit d i g))" by simp
    from in_session_commit [OF this g] have
      "(x \<in> set (documents d) \<and> doc_id x \<noteq> i) \<or>
       (\<exists>row \<in> set (documents d). doc_id row = i \<and> x = g row)" .
    then show ?thesis
    proof
      assume "x \<in> set (documents d) \<and> doc_id x \<noteq> i"
      then show ?thesis by simp
    next
      assume "\<exists>row \<in> set (documents d). doc_id row = i \<and> x = g row"
      then obtain row where "doc_id row = i" "x = g row" by auto
      with g have "doc_id x = i" by simp
      with ne show ?thesis by simp
    qed
  qed
qed

lemma finish_next_id:
  "next_document_id (finish_processing b ex cl now d i p m f) = next_document_id d"
  using finish_processing_forms [of b ex cl now d i p m f]
  by (auto simp: session_commit_next_id)

lemma finish_ids:
  "map doc_id (documents (finish_processing b ex cl now d i p m f)) = map doc_id (documents d)"
  using finish_processing_forms [of b ex cl now d i p m f]
  by (auto simp: session_commit_ids)

lemma inv_step_finish:
  assumes inv: "sys_inv s"
  shows "sys_inv (step (FinishTask k b ex cl now) s)"
proof (cases "k < length (sys_running s)")
  case False
  with inv show ?thesis by simp
next
  case True
  let ?t = "sys_running s ! k"
  let ?d' = "finish_processing b ex cl now (sys_db s) (task_document_id ?t)
               (task_file_path ?t) (task_mime_type ?t) (task_filename ?t)"
  let ?extra = "classification_calls b ex cl (sys_db s) ?t"
  from inv have d: "docs_ok s" and ru: "run_ok s" and ids: "ids_ok s"
    by (simp_all add: sys_inv_def)
  have tin: "?t \<in> set (sys_running s)" using True by simp
  then have "task_document_id ?t \<in> task_document_id ` set (sys_running s)" by (rule imageI)
  then have itask: "task_document_id ?t \<in> set (task_ids s)" by (simp add: task_ids_def)
  with ids have "\<forall>c \<in> set (sys_oracle_log s). oc_document_id c \<noteq> task_document_id ?t"
    by (auto simp: ids_ok_def)
  then have l: "calls_for (sys_oracle_log s) (task_document_id ?t) = []"
    by (rule calls_for_other)
  have rows: "\<forall>row \<in> set (documents (sys_db s)). doc_id row = task_document_id ?t \<longrightarrow>
                processing_status row = ''processing'' \<and> doc_ok (sys_oracle_log s) row"
    using ru d tin by (auto simp: run_ok_def docs_ok_def)
  have "sys_inv (s\<lparr>sys_db := ?d', sys_running := remove_nth k (sys_running s),
                   sys_oracle_log := sys_oracle_log s @ ?extra\<rparr>)"
  proof (rule inv_finish [OF inv True])
    show "\<forall>x \<in> set (documents ?d'). doc_id x \<noteq> task_document_id ?t \<longrightarrow>
            x \<in> set (documents (sys_db s))"
      by (auto dest: finish_keep)
    show "\<forall>x \<in> set (documents ?d'). doc_id x = task_document_id ?t \<longrightarrow>
            doc_ok (sys_oracle_log s @ ?extra) x"
      using finish_mine [OF rows l] by blast
    show "next_document_id ?d' = next_document_id (sys_db s)"
      by (rule finish_next_id)
    show "\<forall>c \<in> set ?extra. oc_document_id c = task_document_id ?t \<and> lookup_ok c"
      by (rule classification_calls_ok)
  qed
  with True show ?thesis by (simp add: Let_def)
qed

lemma inv_shrink:
  assumes inv: "sys_inv s"
      and sub: "set (documents d') \<subseteq> set (documents (sys_db s))"
      and nxt: "next_document_id d' = next_document_id (sys_db s)"
  shows "sys_inv (s\<lparr>sys_db := d'\<rparr>)"
proof -
  from inv have d: "docs_ok s" and sch: "sched_ok s" and ru: "run_ok s" and ids: "ids_ok s"
    by (simp_all add: sys_inv_def)
  have "docs_ok (s\<lparr>sys_db := d'\<rparr>)"
    using d sub by (auto simp: docs_ok_def nxt)
  moreover have "sched_ok (s\<lparr>sys_db := d'\<rparr>)"
    using sch sub by (auto simp: sched_ok_def)
  moreover have "run_ok (s\<lparr>sys_db := d'\<rparr>)"
    using ru sub by (auto simp: run_ok_def)
  moreover have "ids_ok (s\<lparr>sys_db := d'\<rparr>)"
    using ids by (simp add: ids_ok_def task_ids_def nxt)
  ultimately show ?thesis by (simp add: sys_inv_def)
qed

lemma inv_drop_task:
  assumes inv: "sys_inv s" and k: "k < length (sys_scheduled s)"
  shows "sys_inv (s\<lparr>sys_scheduled := remove_nth k (sys_scheduled s)\<rparr>)"
proof -
  let ?s' = "s\<lparr>sys_scheduled := remove_nth k (sys_scheduled s)\<rparr>"
  from remove_nth_decomp [OF k] obtain ys zs where
    sc: "sys_scheduled s = ys @ sys_scheduled s ! k # zs"
    and rm: "remove_nth k (sys_scheduled s) = ys @ zs"
    by blast
  from inv have d: "docs_ok s" and sch: "sched_ok s" and ru: "run_ok s" and ids: "ids_ok s"
    by (simp_all add: sys_inv_def)
  have tids0: "task_ids s = map task_document_id ys @
                 task_document_id (sys_scheduled s ! k) # map task_document_id zs @
                 map task_document_id (sys_running s)"
    unfolding task_ids_def by (subst sc) simp
  have tids: "task_ids ?s' = map task_document_id ys @ map task_document_id zs @
                 map task_document_id (sys_running s)"
    by (simp add: task_ids_def rm)
  have sub: "set (task_ids ?s') \<subseteq> set (task_ids s)"
    unfolding tids tids0 by auto
  have ssub: "set (sys_scheduled ?s') \<subseteq> set (sys_scheduled s)"
    by (subst sc) (auto simp: rm)
  have "docs_ok ?s'" using d by (simp add: docs_ok_def)
  moreover have "sched_ok ?s'"
    using sch ssub unfolding sched_ok_def by auto
  moreover have "run_ok ?s'" using ru by (simp add: run_ok_def)
  moreover have "ids_ok ?s'"
    unfolding ids_ok_def
  proof (intro conjI ballI)
    show "distinct (task_ids ?s')"
      using ids unfolding ids_ok_def tids0 tids by simp
  next
    fix j assume "j \<in> set (task_ids ?s')"
    with sub have "j \<in> set (task_ids s)" by auto
    with ids show "j < next_document_id (sys_db ?s')" by (simp add: ids_ok_def)
  next
    fix c assume c: "c \<in> set (sys_oracle_log ?s')"
    with ids have "oc_document_id c < next_document_id (sys_db s)"
      "oc_document_id c \<notin> set (task_ids s)" "lookup_ok c"
      by (simp_all add: ids_ok_def)
    with sub show "oc_document_id c < next_document_id (sys_db ?s')"
      and "oc_document_id c \<notin> set (task_ids ?s')" and "lookup_ok c"
      by auto
  qed
  ultimately show ?thesis by (simp add: sys_inv_def)
qed

lemma inv_step_start:
  assumes inv: "sys_inv s"
  shows "sys_inv (step (StartTask k) s)"
proof (cases "k < length (sys_scheduled s)")
  case False
  with inv show ?thesis by simp
next
  case True
  show ?thesis
  proof (cases "first_document (sys_db s) (task_document_id (sys_scheduled s ! k))")
    case None
    with inv_drop_task [OF inv True] True show ?thesis
      by (simp add: start_processing_None)
  next
    case (Some r)
    with inv_start [OF inv True Some] True show ?thesis
      by (simp add: start_processing_Some)
  qed
qed

text \<open>A new document and its task.\<close>

lemma inv_add:
  assumes inv: "sys_inv s"
      and t: "task_document_id t = next_document_id (sys_db s)"
  shows "sys_inv (s\<lparr>sys_db := fst (add_document (sys_db s) (new_document uid info)),
                    sys_scheduled := sys_scheduled s @ [t]\<rparr>)"
proof -
  let ?n = "next_document_id (sys_db s)"
  let ?new = "(new_document uid info)\<lparr>doc_id := ?n\<rparr>"
  let ?s' = "s\<lparr>sys_db := fst (add_document (sys_db s) (new_document uid info)),
               sys_scheduled := sys_scheduled s @ [t]\<rparr>"
  from inv have d: "docs_ok s" and sch: "sched_ok s" and ru: "run_ok s" and ids: "ids_ok s"
    by (simp_all add: sys_inv_def)
  have docs: "documents (sys_db ?s') = documents (sys_db s) @ [?new]"
    and nxt: "next_document_id (sys_db ?s') = ?n + 1"
    and nxt': "next_document_id (fst (add_document (sys_db s) (new_document uid info))) = ?n + 1"
    by (simp_all add: add_document_def Let_def)
  have newp: "processing_status ?new = ''pending''" "processing_error ?new = None"
    "category_id ?new = None" "doc_id ?new = ?n"
    by (simp_all add: new_document_def)
  have old_lt: "\<forall>r \<in> set (documents (sys_db s)). doc_id r < ?n"
    using d by (simp add: docs_ok_def)
  have ids_lt: "\<forall>i \<in> set (task_ids s). i < ?n"
    using ids by (simp add: ids_ok_def)
  have tids: "set (task_ids ?s') = insert ?n (set (task_ids s))"
    by (auto simp: task_ids_def t)
  have d': "docs_ok ?s'"
    unfolding docs_ok_def docs nxt
  proof
    fix x assume "x \<in> set (documents (sys_db s) @ [?new])"
    then consider "x \<in> set (documents (sys_db s))" | "x = ?new" by auto
    then show "doc_id x < ?n + 1 \<and> doc_ok (sys_oracle_log ?s') x"
    proof cases
      case 1
      with d show ?thesis by (auto simp: docs_ok_def)
    next
      case 2
      with newp show ?thesis by (simp add: doc_ok_def)
    qed
  qed
  have sch': "sched_ok ?s'"
    unfolding sched_ok_def docs
  proof (intro ballI impI)
    fix u x assume u: "u \<in> set (sys_scheduled ?s')"
      and x: "x \<in> set (documents (sys_db s) @ [?new])" and e: "doc_id x = task_document_id u"
    from u consider "u \<in> set (sys_scheduled s)" | "u = t" by auto
    then show "processing_status x = ''pending''"
    proof cases
      case 1
      then have "task_document_id u \<in> set (task_ids s)" by (simp add: task_ids_def)
      with ids_lt have "task_document_id u < ?n" by simp
      with e x newp have "x \<in> set (documents (sys_db s))" by auto
      with sch 1 e show ?thesis by (auto simp: sched_ok_def)
    next
      case 2
      with e t have "doc_id x = ?n" by simp
      with old_lt x have "x = ?new" by auto
      with newp show ?thesis by simp
    qed
  qed
  have ru': "run_ok ?s'"
    unfolding run_ok_def docs
  proof (intro ballI impI)
    fix u x assume m: "u \<in> set (sys_running ?s')"
      and x: "x \<in> set (documents (sys_db s) @ [?new])" and e: "doc_id x = task_document_id u"
    from m have m': "u \<in> set (sys_running s)" by simp
    then have "task_document_id u \<in> set (task_ids s)" by (simp add: task_ids_def)
    with ids_lt have "task_document_id u < ?n" by simp
    with e x newp have "x \<in> set (documents (sys_db s))" by auto
    with ru m' e show "processing_status x = ''processing''" by (auto simp: run_ok_def)
  qed
  have nnot: "?n \<notin> set (task_ids s)" using ids_lt by auto
  have ids': "ids_ok ?s'"
    unfolding ids_ok_def
  proof (intro conjI ballI)
    have "task_ids ?s' = map task_document_id (sys_scheduled s) @ ?n #
            map task_document_id (sys_running s)"
      by (simp add: task_ids_def t)
    moreover have "distinct (map task_document_id (sys_scheduled s) @
            map task_document_id (sys_running s))"
      using ids by (simp add: ids_ok_def task_ids_def)
    moreover have "?n \<notin> set (map task_document_id (sys_scheduled s) @
            map task_document_id (sys_running s))"
      using nnot by (simp add: task_ids_def)
    ultimately show "distinct (task_ids ?s')" by simp
  next
    fix j assume "j \<in> set (task_ids ?s')"
    with tids ids_lt show "j < next_document_id (sys_db ?s')" by (auto simp: nxt')
  next
    fix c assume c: "c \<in> set (sys_oracle_log ?s')"
    with ids have l: "oc_document_id c < ?n" "oc_document_id c \<notin> set (task_ids s)" "lookup_ok c"
      by (simp_all add: ids_ok_def)
    then show "oc_document_id c < next_document_id (sys_db ?s')"
      and "oc_document_id c \<notin> set (task_ids ?s')" and "lookup_ok c"
      unfolding tids by (simp_all add: nxt')
  qed
  show ?thesis
    unfolding sys_inv_def using d' sch' ru' ids' by simp
qed

lemma upload_document_fails:
  "file_fails v sv uid file \<Longrightarrow> upload_document v sv uid file d = (None, d, [])"
  by (auto simp: upload_document_def file_fails_def Let_def split: prod.splits sum.splits)

lemma upload_document_ok:
  "\<not> file_fails v sv uid file \<Longrightarrow>
     \<exists>info. sv (uf_content file) (uf_filename file) uid = Inr info \<and>
       upload_document v sv uid file d =
         (Some ((new_document uid info)\<lparr>doc_id := next_document_id d\<rparr>),
          fst (add_document d (new_document uid info)),
          [\<lparr>task_document_id = next_document_id d,
            task_file_path = fi_file_path info,
            task_mime_type = fi_mime_type info,
            task_filename = uf_filename file\<rparr>])"
  by (auto simp: upload_document_def file_fails_def add_document_def Let_def
      split: prod.splits sum.splits)

lemma inv_step_upload:
  assumes inv: "sys_inv s"
  shows "sys_inv (step (Upload v sv uid file) s)"
proof (cases "file_fails v sv uid file")
  case True
  with inv show ?thesis by (simp add: upload_document_fails)
next
  case False
  from upload_document_ok [OF False, of "sys_db s"] obtain info where
    u: "upload_document v sv uid file (sys_db s) =
       (Some ((new_document uid info)\<lparr>doc_id := next_document_id (sys_db s)\<rparr>),
        fst (add_document (sys_db s) (new_document uid info)),
        [\<lparr>task_document_id = next_document_id (sys_db s),
          task_file_path = fi_file_path info,
          task_mime_type = fi_mime_type info,
          task_filename = uf_filename file\<rparr>])"
    by blast
  from inv_add [OF inv, of "\<lparr>task_document_id = next_document_id (sys_db s),
          task_file_path = fi_file_path info,
          task_mime_type = fi_mime_type info,
          task_filename = uf_filename file\<rparr>" uid info]
  show ?thesis by (simp add: u)
qed

lemma inv_bulk_loop:
  "sys_inv (s\<lparr>sys_db := bs_db st, sys_scheduled := sc @ bs_background_tasks st\<rparr>) \<Longrightarrow>
   sys_inv (s\<lparr>sys_db := bs_db (bulk_loop v sv uid files st),
              sys_scheduled := sc @ bs_background_tasks (bulk_loop v sv uid files st)\<rparr>)"
proof (induction files arbitrary: st)
  case Nil
  then show ?case by simp
next
  case (Cons f files)
  have "sys_inv (s\<lparr>sys_db := bs_db (bulk_file v sv uid f st),
                   sys_scheduled := sc @ bs_background_tasks (bulk_file v sv uid f st)\<rparr>)"
  proof (cases "file_fails v sv uid f")
    case True
    from bulk_file_fails [OF True, of st] obtain msg where
      "bulk_file v sv uid f st =
         st\<lparr>bs_failed_files := bs_failed_files st @ [\<lparr>ff_filename = uf_filename f, ff_error = msg\<rparr>]\<rparr>"
      by blast
    with Cons.prems show ?thesis by simp
  next
    case False
    from bulk_file_ok [OF False, of st] obtain info where
      b: "bulk_file v sv uid f st =
         st\<lparr>bs_db := fst (add_document (bs_db st) (new_document uid info)),
            bs_uploaded_files := bs_uploaded_files st @ [uf_filename f],
            bs_processing_jobs := bs_processing_jobs st @ [next_document_id (bs_db st)],
            bs_background_tasks := bs_background_tasks st @
              [\<lparr>task_document_id = next_document_id (bs_db st),
                task_file_path = fi_file_path info,
                task_mime_type = fi_mime_type info,
                task_filename = uf_filename f\<rparr>]\<rparr>"
      by blast
    from inv_add [OF Cons.prems, of "\<lparr>task_document_id = next_document_id (bs_db st),
                task_file_path = fi_file_path info,
                task_mime_type = fi_mime_type info,
                task_filename = uf_filename f\<rparr>" uid info]
    show ?thesis by (simp add: b)
  qed
  from Cons.IH [OF this] show ?case by simp
qed

lemma inv_step_bulk:
  assumes inv: "sys_inv s"
  shows "sys_inv (step (BulkUpload v sv uid files) s)"
proof -
  let ?init = "\<lparr>bs_db = sys_db s, bs_background_tasks = [], bs_uploaded_files = [],
                bs_failed_files = [], bs_processing_jobs = []\<rparr>"
  have "sys_inv (s\<lparr>sys_db := bs_db ?init, sys_scheduled := sys_scheduled s @ bs_background_tasks ?init\<rparr>)"
    using inv by simp
  from inv_bulk_loop [OF this, of v sv uid files] show ?thesis
    by (simp add: upload_documents_bulk_def Let_def)
qed

lemma inv_step_delete:
  assumes inv: "sys_inv s"
  shows "sys_inv (step (Delete df uid i) s)"
proof -
  have "set (documents (snd (delete_document df uid i (sys_db s)))) \<subseteq> set (documents (sys_db s))"
    and "next_document_id (snd (delete_document df uid i (sys_db s))) = next_document_id (sys_db s)"
    by (auto simp: delete_document_def split: option.splits)
  from inv_shrink [OF inv this] show ?thesis by simp
qed

lemma documents_flush:
  "documents (flush d p) = documents d \<and> next_document_id (flush d p) = next_document_id d"
  unfolding flush_def by (induction p arbitrary: d) (simp_all add: insert_category_def)

lemma inv_step_seed:
  assumes inv: "sys_inv s"
  shows "sys_inv (step (Seed af) s)"
proof -
  from seed_result_added [of af default_categories "sys_db s" "[]"] obtain added where
    "init_document_categories af (sys_db s) = flush (sys_db s) added"
    by (auto simp: init_seed_result)
  then have "set (documents (init_document_categories af (sys_db s))) \<subseteq> set (documents (sys_db s))"
    and "next_document_id (init_document_categories af (sys_db s)) = next_document_id (sys_db s)"
    by (simp_all add: documents_flush)
  from inv_shrink [OF inv this] show ?thesis by simp
qed

lemma inv_step: "sys_inv s \<Longrightarrow> sys_inv (step e s)"
  by (cases e)
     (simp_all only: inv_step_upload inv_step_bulk inv_step_delete inv_step_start
        inv_step_finish inv_step_seed)

lemma inv_initial: "sys_inv initial_system"
  by (simp add: sys_inv_def docs_ok_def sched_ok_def run_ok_def ids_ok_def task_ids_def
      initial_system_def)

lemma reachable_inv: "reachable s \<Longrightarrow> sys_inv s"
  by (induction rule: reachable.induct) (simp_all add: inv_initial inv_step)

lemma example_system_reachable: "reachable example_system"
  unfolding example_system_def example_started_def example_uploaded_def
  by (intro reachable_step reachable_initial)

lemma singleton_hd: "length xs = 1 \<Longrightarrow> xs = [hd xs]"
  by (cases xs) simp_all

text \<open>
  Claim C3: the second commit of a run is the only step that makes a document
  \<open>completed\<close>, and it writes the text, the classification columns and the completion
  time together. So in every reachable state of the system every \<open>completed\<close> document
  has no \<open>processing_error\<close>, has its text and completion time, and has its
  classification columns as written from the one classification call logged for it:
  the five values of the call's result, and the reference to the category that the
  call's lookup of the result's \<open>category_name\<close> found in the categories table.
\<close>

theorem completed_is_classified:
  assumes "reachable s"
      and "r \<in> set (documents (sys_db s))"
      and "processing_status r = ''completed''"
  shows "processing_error r = None \<and> extracted_text r \<noteq> None \<and> processed_at r \<noteq> None \<and>
         (\<exists>c. calls_for (sys_oracle_log s) (doc_id r) = [c] \<and> written_from c r \<and> lookup_ok c)"
proof -
  from assms(1) have inv: "sys_inv s" by (rule reachable_inv)
  then have "docs_ok s" by (simp add: sys_inv_def)
  with assms(2) have "doc_ok (sys_oracle_log s) r" by (simp add: docs_ok_def)
  with assms(3) obtain c where
    o: "processing_error r = None" "extracted_text r \<noteq> None" "processed_at r \<noteq> None"
       "calls_for (sys_oracle_log s) (doc_id r) = [c]" "written_from c r"
    by (auto simp: doc_ok_def)
  from o(4) have "c \<in> set (calls_for (sys_oracle_log s) (doc_id r))" by simp
  then have "c \<in> set (sys_oracle_log s)" by (simp add: calls_for_def)
  with inv have "lookup_ok c" by (simp add: sys_inv_def ids_ok_def)
  with o show ?thesis by simp
qed

theorem completed_is_classified_witness:
  "reachable example_system \<and>
   map doc_id (documents (sys_db example_system)) = [1] \<and>
   map processing_status (documents (sys_db example_system)) = [''completed''] \<and>
   map processing_error (documents (sys_db example_system)) = [None] \<and>
   map extracted_text (documents (sys_db example_system)) = [Some ''Articles of incorporation''] \<and>
   map processed_at (documents (sys_db example_system)) = [Some 7] \<and>
   map (\<lambda>c. oc_result c ''category_name'') (calls_for (sys_oracle_log example_system) 1) =
     [Some (JStr ''Formation'')] \<and>
   map (\<lambda>c. map_option cat_name (find (\<lambda>k. cat_name k = ''Formation'') (oc_categories c)))
     (calls_for (sys_oracle_log example_system) 1) = [Some ''Formation''] \<and>
   map (\<lambda>c. map_option cat_id (find (\<lambda>k. cat_name k = ''Formation'') (oc_categories c)))
     (calls_for (sys_oracle_log example_system) 1) =
     map category_id (documents (sys_db example_system))"
proof -
  let ?r = "hd (documents (sys_db example_system))"
  let ?lg = "calls_for (sys_oracle_log example_system) 1"
  have "length (documents (sys_db example_system)) = 1" by code_simp
  then have d: "documents (sys_db example_system) = [?r]" by (rule singleton_hd)
  have m: "?r \<in> set (documents (sys_db example_system))" by (subst d) simp
  have i: "doc_id ?r = 1" and st: "processing_status ?r = ''completed''"
    and t: "extracted_text ?r = Some ''Articles of incorporation''"
    and p: "processed_at ?r = Some 7"
    by code_simp+
  have "length ?lg = 1" by code_simp
  then have lg: "?lg = [hd ?lg]" by (rule singleton_hd)
  have nm: "oc_result (hd ?lg) ''category_name'' = Some (JStr ''Formation'')"
    and fn: "map_option cat_name (find (\<lambda>k. cat_name k = ''Formation'') (oc_categories (hd ?lg))) =
               Some ''Formation''"
    by code_simp+
  from completed_is_classified [OF example_system_reachable m st] obtain c where
    e: "processing_error ?r = None"
    and c: "calls_for (sys_oracle_log example_system) (doc_id ?r) = [c]"
    and w: "written_from c ?r" and l: "lookup_ok c"
    by blast
  from c i lg have ceq: "c = hd ?lg" by simp
  from l nm have "oc_lookup (hd ?lg) =
      Inr (find (\<lambda>k. cat_name k = ''Formation'') (oc_categories (hd ?lg)))"
    by (simp add: lookup_ok_def ceq)
  with w have cat: "map_option cat_id (find (\<lambda>k. cat_name k = ''Formation'') (oc_categories (hd ?lg))) =
      category_id ?r"
    by (auto simp: written_from_def ceq)
  have m1: "map doc_id (documents (sys_db example_system)) = [1]"
    by (subst d) (simp add: i)
  have m2: "map processing_status (documents (sys_db example_system)) = [''completed'']"
    by (subst d) (simp add: st)
  have m3: "map processing_error (documents (sys_db example_system)) = [None]"
    by (subst d) (simp add: e)
  have m4: "map extracted_text (documents (sys_db example_system)) = [Some ''Articles of incorporation'']"
    by (subst d) (simp add: t)
  have m5: "map processed_at (documents (sys_db example_system)) = [Some 7]"
    by (subst d) (simp add: p)
  have m6: "map (\<lambda>c. oc_result c ''category_name'') ?lg = [Some (JStr ''Formation'')]"
    by (subst lg) (simp add: nm)
  have m7: "map (\<lambda>c. map_option cat_name (find (\<lambda>k. cat_name k = ''Formation'') (oc_categories c))) ?lg =
      [Some ''Formation'']"
    by (subst lg) (simp add: fn)
  have m8: "map (\<lambda>c. map_option cat_id (find (\<lambda>k. cat_name k = ''Formation'') (oc_categories c))) ?lg =
      map category_id (documents (sys_db example_system))"
    by (subst lg, subst d) (simp add: cat)
  from example_system_reachable m1 m2 m3 m4 m5 m6 m7 m8 show ?thesis
    by (intro conjI)
qed

subsection \<open>The status state machine\<close>

lemma unique_ids_same:
  "map doc_id (documents d') = map doc_id (documents d) \<Longrightarrow>
   next_document_id d' = next_document_id d \<Longrightarrow> unique_ids d \<Longrightarrow> unique_ids d'"
proof -
  assume m: "map doc_id (documents d') = map doc_id (documents d)"
    and n: "next_document_id d' = next_document_id d" and u: "unique_ids d"
  from m have "doc_id ` set (documents d') = doc_id ` set (documents d)"
    by (metis list.set_map)
  with u have "\<forall>r \<in> set (documents d'). doc_id r < next_document_id d"
    unfolding unique_ids_def by (metis (no_types, lifting) imageE imageI)
  with u m n show ?thesis by (simp add: unique_ids_def)
qed

lemma commit_ids:
  "map doc_id (documents (commit_document d obj)) = map doc_id (documents d)"
  by (simp add: commit_documents)

lemma unique_ids_commit: "unique_ids d \<Longrightarrow> unique_ids (commit_document d obj)"
  by (rule unique_ids_same [OF commit_ids commit_next_id])

lemma unique_ids_add:
  "unique_ids d \<Longrightarrow> unique_ids (fst (add_document d obj))"
  by (auto simp: unique_ids_def add_document_def Let_def)

lemma unique_ids_finish:
  "unique_ids d \<Longrightarrow> unique_ids (finish_processing b ex cl now d i p m f)"
  by (rule unique_ids_same [OF finish_ids finish_next_id])

lemma unique_ids_bulk_loop:
  "unique_ids (bs_db st) \<Longrightarrow> unique_ids (bs_db (bulk_loop v sv uid files st))"
proof (induction files arbitrary: st)
  case Nil
  then show ?case by simp
next
  case (Cons f files)
  have "unique_ids (bs_db (bulk_file v sv uid f st))"
  proof (cases "file_fails v sv uid f")
    case True
    from bulk_file_fails [OF True, of st] Cons.prems show ?thesis by auto
  next
    case False
    from bulk_file_ok [OF False, of st] unique_ids_add [OF Cons.prems] show ?thesis by auto
  qed
  from Cons.IH [OF this] show ?case by simp
qed

lemma unique_ids_delete:
  "unique_ids d \<Longrightarrow> unique_ids (snd (delete_document df uid i d))"
  by (auto simp: unique_ids_def delete_document_def distinct_map_filter split: option.splits)

lemma unique_ids_seed: "unique_ids d \<Longrightarrow> unique_ids (init_document_categories af d)"
proof -
  assume u: "unique_ids d"
  from seed_result_added [of af default_categories d "[]"] obtain added where
    "init_document_categories af d = flush d added"
    by (auto simp: init_seed_result)
  with u show ?thesis by (simp add: unique_ids_def documents_flush)
qed

lemma unique_ids_step: "unique_ids (sys_db s) \<Longrightarrow> unique_ids (sys_db (step e s))"
proof (cases e)
  case (Upload v sv uid upl)
  assume u: "unique_ids (sys_db s)"
  show ?thesis
  proof (cases "file_fails v sv uid upl")
    case True
    with u Upload show ?thesis by (simp add: upload_document_fails)
  next
    case False
    from upload_document_ok [OF False, of "sys_db s"] unique_ids_add [OF u] Upload
    show ?thesis by auto
  qed
next
  case (BulkUpload v sv uid files)
  assume u: "unique_ids (sys_db s)"
  then have "unique_ids (bs_db \<lparr>bs_db = sys_db s, bs_background_tasks = [], bs_uploaded_files = [],
                bs_failed_files = [], bs_processing_jobs = []\<rparr>)" by simp
  from unique_ids_bulk_loop [OF this] BulkUpload show ?thesis
    by (simp add: upload_documents_bulk_def Let_def)
next
  case (Delete df uid i)
  assume "unique_ids (sys_db s)"
  with Delete show ?thesis by (simp add: unique_ids_delete)
next
  case (StartTask k)
  assume "unique_ids (sys_db s)"
  with StartTask show ?thesis
    by (auto simp: start_processing_def unique_ids_commit Let_def split: option.splits)
next
  case (FinishTask k b ex cl now)
  assume "unique_ids (sys_db s)"
  with FinishTask show ?thesis
    by (auto simp: unique_ids_finish Let_def)
next
  case (Seed af)
  assume "unique_ids (sys_db s)"
  with Seed show ?thesis by (simp add: unique_ids_seed)
qed

lemma reachable_unique_ids: "reachable s \<Longrightarrow> unique_ids (sys_db s)"
  by (induction rule: reachable.induct)
     (simp_all add: unique_ids_step, simp add: unique_ids_def initial_system_def)

lemma unique_ids_eq:
  "unique_ids d \<Longrightarrow> r \<in> set (documents d) \<Longrightarrow> r' \<in> set (documents d) \<Longrightarrow>
     doc_id r' = doc_id r \<Longrightarrow> r' = r"
  by (auto simp: unique_ids_def distinct_map inj_on_def)

lemma step_documents:
  assumes re: "reachable s"
      and r: "r \<in> set (documents (sys_db s))"
      and r': "r' \<in> set (documents (sys_db (step e s)))"
      and i: "doc_id r' = doc_id r"
  shows "r' = r \<or> status_move (processing_status r) (processing_status r')"
proof -
  from re have inv: "sys_inv s" by (rule reachable_inv)
  from re have u: "unique_ids (sys_db s)" by (rule reachable_unique_ids)
  from re have "reachable (step e s)" by (rule reachable_step)
  then have u': "unique_ids (sys_db (step e s))" by (rule reachable_unique_ids)
  have sub: "set (documents (sys_db (step e s))) \<subseteq> set (documents (sys_db s)) \<Longrightarrow> r' = r"
    using unique_ids_eq [OF u r _ i] r' by auto
  have sup: "set (documents (sys_db s)) \<subseteq> set (documents (sys_db (step e s))) \<Longrightarrow> r' = r"
    using unique_ids_eq [OF u' _ r' i] r by auto
  show ?thesis
  proof (cases e)
    case (Upload v sv uid upl)
    have "set (documents (sys_db s)) \<subseteq> set (documents (sys_db (step e s)))"
    proof (cases "file_fails v sv uid upl")
      case True
      with Upload show ?thesis by (simp add: upload_document_fails)
    next
      case False
      from upload_document_ok [OF False, of "sys_db s"] Upload show ?thesis
        by (auto simp: add_document_def Let_def)
    qed
    then show ?thesis using sup by simp
  next
    case (BulkUpload v sv uid files)
    from bulk_loop_scheduled [of v sv uid files
        "\<lparr>bs_db = sys_db s, bs_background_tasks = [], bs_uploaded_files = [],
          bs_failed_files = [], bs_processing_jobs = []\<rparr>"]
    have "set (documents (sys_db s)) \<subseteq> set (documents (sys_db (step e s)))"
      using BulkUpload by (auto simp: upload_documents_bulk_def Let_def)
    then show ?thesis using sup by simp
  next
    case (Delete df uid j)
    have "set (documents (sys_db (step e s))) \<subseteq> set (documents (sys_db s))"
      using Delete by (auto simp: delete_document_def split: option.splits)
    then show ?thesis using sub by simp
  next
    case (Seed af)
    from seed_result_added [of af default_categories "sys_db s" "[]"] obtain added where
      "init_document_categories af (sys_db s) = flush (sys_db s) added"
      by (auto simp: init_seed_result)
    then have "set (documents (sys_db (step e s))) \<subseteq> set (documents (sys_db s))"
      using Seed by (simp add: documents_flush)
    then show ?thesis using sub by simp
  next
    case (StartTask k)
    show ?thesis
    proof (cases "k < length (sys_scheduled s)")
      case False
      with StartTask sub show ?thesis by simp
    next
      case True
      let ?t = "sys_scheduled s ! k"
      show ?thesis
      proof (cases "first_document (sys_db s) (task_document_id ?t)")
        case None
        with StartTask True sub show ?thesis by (simp add: start_processing_None)
      next
        case (Some r0)
        let ?obj = "r0\<lparr>processing_status := ''processing''\<rparr>"
        from first_document_in [OF Some] have r0: "r0 \<in> set (documents (sys_db s))"
          "doc_id r0 = task_document_id ?t" by simp_all
        from inv True r0 have p: "processing_status r0 = ''pending''"
          by (auto simp: sys_inv_def sched_ok_def)
        from r' StartTask True Some
        have "r' \<in> set (documents (commit_document (sys_db s) ?obj))"
          by (simp add: start_processing_Some)
        from in_commit [OF this] show ?thesis
        proof
          assume "r' \<in> set (documents (sys_db s)) \<and> doc_id r' \<noteq> doc_id ?obj"
          with unique_ids_eq [OF u r _ i] show ?thesis by simp
        next
          assume a: "r' = ?obj \<and> (\<exists>x \<in> set (documents (sys_db s)). doc_id x = doc_id ?obj)"
          with i have "doc_id r0 = doc_id r" by simp
          from unique_ids_eq [OF u r r0(1) this] have "r0 = r" .
          with a p show ?thesis by (auto simp: status_move_def)
        qed
      qed
    qed
  next
    case (FinishTask k b ex cl now)
    show ?thesis
    proof (cases "k < length (sys_running s)")
      case False
      with FinishTask sub show ?thesis by simp
    next
      case True
      let ?t = "sys_running s ! k"
      let ?i = "task_document_id ?t"
      let ?d' = "finish_processing b ex cl now (sys_db s) ?i (task_file_path ?t)
                   (task_mime_type ?t) (task_filename ?t)"
      from True have m: "?t \<in> set (sys_running s)" by simp
      from r' FinishTask True have r'in: "r' \<in> set (documents ?d')" by (simp add: Let_def)
      from finish_processing_forms [of b ex cl now "sys_db s" ?i "task_file_path ?t"
          "task_mime_type ?t" "task_filename ?t"]
      show ?thesis
      proof
        assume "?d' = sys_db s"
        with r'in have "r' \<in> set (documents (sys_db s))" by simp
        from unique_ids_eq [OF u r this i] show ?thesis by simp
      next
        assume "\<exists>g. ?d' = session_commit (sys_db s) ?i g \<and>
          (\<forall>row. doc_id (g row) = doc_id row \<and>
                 (processing_status (g row) = ''completed'' \<or> processing_status (g row) = ''failed''))"
        then obtain g where e: "?d' = session_commit (sys_db s) ?i g"
          and g: "\<forall>row. doc_id (g row) = doc_id row"
          and st: "\<forall>row. processing_status (g row) = ''completed'' \<or>
                         processing_status (g row) = ''failed''"
          by auto
        from r'in e have "r' \<in> set (documents (session_commit (sys_db s) ?i g))" by simp
        from in_session_commit [OF this g] show ?thesis
        proof
          assume "r' \<in> set (documents (sys_db s)) \<and> doc_id r' \<noteq> ?i"
          with unique_ids_eq [OF u r _ i] show ?thesis by simp
        next
          assume "\<exists>row \<in> set (documents (sys_db s)). doc_id row = ?i \<and> r' = g row"
          then obtain row where row: "row \<in> set (documents (sys_db s))" "doc_id row = ?i"
            "r' = g row" by auto
          from row(3) g i have "doc_id row = doc_id r" by simp
          from unique_ids_eq [OF u r row(1) this] have rr: "row = r" .
          from inv m row(1,2) have "processing_status row = ''processing''"
            by (auto simp: sys_inv_def run_ok_def)
          with rr row(3) st show ?thesis by (auto simp: status_move_def)
        qed
      qed
    qed
  qed
qed

lemma step_new_document:
  assumes r': "r' \<in> set (documents (sys_db (step e s)))"
      and new: "\<forall>r \<in> set (documents (sys_db s)). doc_id r \<noteq> doc_id r'"
  shows "processing_status r' = ''pending''"
proof -
  have same: "map doc_id (documents (sys_db (step e s))) = map doc_id (documents (sys_db s)) \<Longrightarrow> False"
  proof -
    assume "map doc_id (documents (sys_db (step e s))) = map doc_id (documents (sys_db s))"
    then have "doc_id ` set (documents (sys_db (step e s))) = doc_id ` set (documents (sys_db s))"
      by (metis list.set_map)
    with r' have "doc_id r' \<in> doc_id ` set (documents (sys_db s))" by blast
    with new show False by auto
  qed
  have sub: "set (documents (sys_db (step e s))) \<subseteq> set (documents (sys_db s)) \<Longrightarrow> False"
    using r' new by auto
  show ?thesis
  proof (cases e)
    case (Upload v sv uid upl)
    show ?thesis
    proof (cases "file_fails v sv uid upl")
      case True
      with Upload sub show ?thesis by (simp add: upload_document_fails)
    next
      case False
      from upload_document_ok [OF False, of "sys_db s"] obtain info where
        "upload_document v sv uid upl (sys_db s) =
           (Some ((new_document uid info)\<lparr>doc_id := next_document_id (sys_db s)\<rparr>),
            fst (add_document (sys_db s) (new_document uid info)),
            [\<lparr>task_document_id = next_document_id (sys_db s),
              task_file_path = fi_file_path info,
              task_mime_type = fi_mime_type info,
              task_filename = uf_filename upl\<rparr>])"
        by blast
      with r' Upload have "r' \<in> set (documents (sys_db s)) \<or>
          r' = (new_document uid info)\<lparr>doc_id := next_document_id (sys_db s)\<rparr>"
        by (auto simp: add_document_def Let_def)
      with new show ?thesis by (auto simp: new_document_def)
    qed
  next
    case (BulkUpload v sv uid files)
    from bulk_loop_scheduled [of v sv uid files
        "\<lparr>bs_db = sys_db s, bs_background_tasks = [], bs_uploaded_files = [],
          bs_failed_files = [], bs_processing_jobs = []\<rparr>"]
    obtain added where
      "documents (sys_db (step e s)) = documents (sys_db s) @ added"
      "list_all (\<lambda>r. processing_status r = ''pending'' \<and> user_id r = uid) added"
      using BulkUpload by (auto simp: upload_documents_bulk_def Let_def)
    with r' new show ?thesis by (auto simp: list_all_iff)
  next
    case (Delete df uid j)
    have "set (documents (sys_db (step e s))) \<subseteq> set (documents (sys_db s))"
      using Delete by (auto simp: delete_document_def split: option.splits)
    with sub show ?thesis by simp
  next
    case (Seed af)
    from seed_result_added [of af default_categories "sys_db s" "[]"] obtain added where
      "init_document_categories af (sys_db s) = flush (sys_db s) added"
      by (auto simp: init_seed_result)
    then have "set (documents (sys_db (step e s))) \<subseteq> set (documents (sys_db s))"
      using Seed by (simp add: documents_flush)
    with sub show ?thesis by simp
  next
    case (StartTask k)
    have "map doc_id (documents (sys_db (step e s))) = map doc_id (documents (sys_db s))"
      using StartTask
      by (auto simp: start_processing_def commit_ids Let_def split: option.splits)
    with same show ?thesis by simp
  next
    case (FinishTask k b ex cl now)
    have "map doc_id (documents (sys_db (step e s))) = map doc_id (documents (sys_db s))"
      using FinishTask by (simp add: finish_ids Let_def)
    with same show ?thesis by simp
  qed
qed

lemma waiting_task_pending:
  assumes re: "reachable s"
      and k: "k < length (sys_scheduled s)"
      and r: "first_document (sys_db s) (task_document_id (sys_scheduled s ! k)) = Some r"
  shows "processing_status r = ''pending''"
proof -
  from re have "sched_ok s" using reachable_inv by (simp add: sys_inv_def)
  moreover from k have "sys_scheduled s ! k \<in> set (sys_scheduled s)" by simp
  moreover from first_document_in [OF r] have "r \<in> set (documents (sys_db s))"
    "doc_id r = task_document_id (sys_scheduled s ! k)" by simp_all
  ultimately show ?thesis by (auto simp: sched_ok_def)
qed

lemma reachable_distinct_tasks: "reachable s \<Longrightarrow> distinct (task_ids s)"
  using reachable_inv by (simp add: sys_inv_def ids_ok_def)

text \<open>
  Claim C1, as the code has it: the step has no guard on the current status. When the
  document id is not found the run commits nothing and leaves the database as it was;
  when it is found, whatever its current status, the first commit stores the document
  with status \<open>processing\<close> and every other column as before, and no other document
  changes. In the running system the tasks that wait or run have distinct documents, and
  a waiting task finds its document \<open>pending\<close> or not at all: each upload schedules one
  task for its new document, so at most one run per document reaches \<open>processing\<close>.
\<close>

theorem processing_unguarded:
  "(first_document d i = None \<longrightarrow>
      process_document_commits b ex cl now d i p m f = [] \<and>
      process_document_async b ex cl now d i p m f = d) \<and>
   (\<forall>r. first_document d i = Some r \<longrightarrow>
      (\<exists>d1 d2. process_document_commits b ex cl now d i p m f = [d1, d2] \<and>
         d1 = commit_document d (r\<lparr>processing_status := ''processing''\<rparr>) \<and>
         first_document d1 i = Some (r\<lparr>processing_status := ''processing''\<rparr>) \<and>
         (\<forall>j. j \<noteq> i \<longrightarrow> first_document d1 j = first_document d j))) \<and>
   (reachable s \<longrightarrow>
      distinct (task_ids s) \<and>
      (\<forall>k r. k < length (sys_scheduled s) \<and>
             first_document (sys_db s) (task_document_id (sys_scheduled s ! k)) = Some r \<longrightarrow>
             processing_status r = ''pending''))"
proof (intro conjI)
  show "first_document d i = None \<longrightarrow>
      process_document_commits b ex cl now d i p m f = [] \<and>
      process_document_async b ex cl now d i p m f = d"
    using start_commits [of d i b ex cl now p m f] by (rule conjunct1)
  show "\<forall>r. first_document d i = Some r \<longrightarrow>
      (\<exists>d1 d2. process_document_commits b ex cl now d i p m f = [d1, d2] \<and>
         d1 = commit_document d (r\<lparr>processing_status := ''processing''\<rparr>) \<and>
         first_document d1 i = Some (r\<lparr>processing_status := ''processing''\<rparr>) \<and>
         (\<forall>j. j \<noteq> i \<longrightarrow> first_document d1 j = first_document d j))"
    using start_commits [of d i b ex cl now p m f] by (rule conjunct2)
  show "reachable s \<longrightarrow>
      distinct (task_ids s) \<and>
      (\<forall>k r. k < length (sys_scheduled s) \<and>
             first_document (sys_db s) (task_document_id (sys_scheduled s ! k)) = Some r \<longrightarrow>
             processing_status r = ''pending'')"
    using reachable_distinct_tasks waiting_task_pending by blast
qed

theorem processing_unguarded_witness:
  "first_document (example_db ''failed'') 1 = Some (example_document ''failed'') \<and>
   (\<exists>d1 d2. process_document_commits strict_backend good_extract good_classify 7
        (example_db ''failed'') 1
        ''uploads/u10_charter.txt'' ''text/plain'' ''charter.txt'' = [d1, d2] \<and>
      first_document d1 1 = Some ((example_document ''failed'')\<lparr>processing_status := ''processing''\<rparr>)) \<and>
   reachable example_uploaded \<and> distinct (task_ids example_uploaded) \<and>
   map task_document_id (sys_scheduled example_uploaded) = [1] \<and>
   map processing_status (documents (sys_db example_uploaded)) = [''pending'']"
proof -
  have r: "first_document (example_db ''failed'') 1 = Some (example_document ''failed'')"
    by (simp add: first_document_def example_defs)
  have re: "reachable example_uploaded"
    unfolding example_uploaded_def by (intro reachable_step reachable_initial)
  have t: "map task_document_id (sys_scheduled example_uploaded) = [1]"
    and st: "map processing_status (documents (sys_db example_uploaded)) = [''pending'']"
    by code_simp+
  from processing_unguarded [of "example_db ''failed''" 1 strict_backend good_extract good_classify 7
      "''uploads/u10_charter.txt''" "''text/plain''" "''charter.txt''" example_uploaded] r re t st
  show ?thesis by auto
qed

text \<open>
  The claim as stated fails: a run on a document that is \<open>completed\<close>, not \<open>pending\<close>,
  moves it to \<open>processing\<close> and on to \<open>failed\<close>, and changes the database.
\<close>

theorem not_noop_counterexample:
  "status_of (example_db ''completed'') 1 = Some ''completed'' \<and>
   map (\<lambda>s. status_of s 1)
     (process_document_commits strict_backend bad_extract good_classify 7 (example_db ''completed'') 1
        ''uploads/u10_charter.txt'' ''text/plain'' ''charter.txt'') =
     [Some ''processing'', Some ''failed''] \<and>
   process_document_async strict_backend bad_extract good_classify 7 (example_db ''completed'') 1
        ''uploads/u10_charter.txt'' ''text/plain'' ''charter.txt'' \<noteq> example_db ''completed''"
  by (simp add: status_of_def first_document_def example_db_def example_document_def
      new_document_def example_info_def process_document_commits_def start_processing_def
      finish_processing_def commit_document_def bad_extract_def process_document_async_def
      record_failure_def session_commit_def Let_def)

text \<open>
  Claim C2, as the code has it: a document is created \<open>pending\<close>; a step of the running
  system (a request, the start of a waiting task, the end of a started run, seeding)
  leaves a document as it is or moves its status from \<open>pending\<close> to \<open>processing\<close> or from
  \<open>processing\<close> to \<open>completed\<close> or \<open>failed\<close>, so a \<open>completed\<close> or \<open>failed\<close> document is
  never changed again, and a document that appears is \<open>pending\<close>. The step itself does not
  protect these statuses: whatever the status at its start, a run on an existing document
  commits \<open>processing\<close> and then ends it \<open>completed\<close> when every call returns and the
  database accepts the second commit, \<open>failed\<close> when extraction, classification or the
  category lookup raises and the handler can record it, and leaves it \<open>processing\<close> when
  the database refuses the lookup or the second commit so that the handler cannot write.
\<close>

theorem status_transitions:
  "processing_status (new_document uid info) = ''pending'' \<and>
   (reachable s \<and> r' \<in> set (documents (sys_db (step e s))) \<longrightarrow>
      (\<forall>r \<in> set (documents (sys_db s)). doc_id r = doc_id r' \<longrightarrow>
         r' = r \<or> status_move (processing_status r) (processing_status r')) \<and>
      ((\<forall>r \<in> set (documents (sys_db s)). doc_id r \<noteq> doc_id r') \<longrightarrow>
         processing_status r' = ''pending'')) \<and>
   (first_document d i = Some x \<longrightarrow>
      map (\<lambda>s. status_of s i) (process_document_commits b ex cl now d i p m f) =
        [Some ''processing'',
         Some (case run_end_of b ex cl d p m f of
                 Completes \<Rightarrow> ''completed''
               | Raises err \<Rightarrow> ''failed''
               | Refused err \<Rightarrow> ''processing'')])"
proof (intro conjI impI ballI)
  show "processing_status (new_document uid info) = ''pending''"
    by (simp add: new_document_def)
next
  fix r
  assume a: "reachable s \<and> r' \<in> set (documents (sys_db (step e s)))"
    and r: "r \<in> set (documents (sys_db s))" and i: "doc_id r = doc_id r'"
  from a have re: "reachable s" and r': "r' \<in> set (documents (sys_db (step e s)))" by simp_all
  from i have "doc_id r' = doc_id r" by simp
  from step_documents [OF re r r' this]
  show "r' = r \<or> status_move (processing_status r) (processing_status r')" .
next
  assume a: "reachable s \<and> r' \<in> set (documents (sys_db (step e s)))"
    and n: "\<forall>r \<in> set (documents (sys_db s)). doc_id r \<noteq> doc_id r'"
  from a have r': "r' \<in> set (documents (sys_db (step e s)))" by simp
  from step_new_document [OF r' n] show "processing_status r' = ''pending''" .
next
  assume x: "first_document d i = Some x"
  from run_status_path [OF x, of b ex cl now p m f]
  show "map (\<lambda>s. status_of s i) (process_document_commits b ex cl now d i p m f) =
        [Some ''processing'',
         Some (case run_end_of b ex cl d p m f of
                 Completes \<Rightarrow> ''completed''
               | Raises err \<Rightarrow> ''failed''
               | Refused err \<Rightarrow> ''processing'')]" .
qed

lemma example_system_eq:
  "example_system = step (FinishTask 0 strict_backend good_extract good_classify 7) example_started"
  by (simp only: example_system_def)

theorem status_transitions_witness:
  "reachable example_started \<and>
   map processing_status (documents (sys_db example_started)) = [''processing''] \<and>
   map processing_status (documents (sys_db example_system)) = [''completed''] \<and>
   status_move ''processing'' ''completed'' \<and>
   first_document (example_db ''pending'') 1 = Some (example_document ''pending'') \<and>
   run_end_of strict_backend good_extract good_classify (example_db ''pending'')
     ''uploads/u10_charter.txt'' ''text/plain'' ''charter.txt'' = Completes \<and>
   map (\<lambda>s. status_of s 1)
     (process_document_commits strict_backend good_extract good_classify 7 (example_db ''pending'') 1
        ''uploads/u10_charter.txt'' ''text/plain'' ''charter.txt'') =
     [Some ''processing'', Some ''completed''] \<and>
   map (\<lambda>s. status_of s 1)
     (process_document_commits plain_backend good_extract numeric_classify 7 (example_db ''pending'') 1
        ''uploads/u10_charter.txt'' ''text/plain'' ''charter.txt'') =
     [Some ''processing'', Some ''failed''] \<and>
   map (\<lambda>s. status_of s 1)
     (process_document_commits strict_backend good_extract numeric_classify 7 (example_db ''pending'') 1
        ''uploads/u10_charter.txt'' ''text/plain'' ''charter.txt'') =
     [Some ''processing'', Some ''processing''] \<and>
   map (\<lambda>s. status_of s 1)
     (process_document_commits strict_backend good_extract worded_classify 7 (example_db ''pending'') 1
        ''uploads/u10_charter.txt'' ''text/plain'' ''charter.txt'') =
     [Some ''processing'', Some ''processing'']"
proof -
  let ?r = "hd (documents (sys_db example_started))"
  let ?r' = "hd (documents (sys_db example_system))"
  have re: "reachable example_started"
    unfolding example_started_def example_uploaded_def
    by (intro reachable_step reachable_initial)
  have "length (documents (sys_db example_started)) = 1" by code_simp
  then have d: "documents (sys_db example_started) = [?r]" by (rule singleton_hd)
  have "length (documents (sys_db example_system)) = 1" by code_simp
  then have d': "documents (sys_db example_system) = [?r']" by (rule singleton_hd)
  have s: "processing_status ?r = ''processing''" and s': "processing_status ?r' = ''completed''"
    and i: "doc_id ?r = doc_id ?r'"
    by code_simp+
  have m: "?r \<in> set (documents (sys_db example_started))"
    by (subst d) simp
  have m': "?r' \<in> set (documents (sys_db
               (step (FinishTask 0 strict_backend good_extract good_classify 7) example_started)))"
    unfolding example_system_eq [symmetric] by (subst d') simp
  have x: "first_document (example_db ''pending'') 1 = Some (example_document ''pending'')"
    by (simp add: first_document_def example_defs)
  have e: "run_end_of strict_backend good_extract good_classify (example_db ''pending'')
             ''uploads/u10_charter.txt'' ''text/plain'' ''charter.txt'' = Completes"
    by (simp add: run_end_of_def resolve_category_def first_category_named_def strict_backend_def
        example_defs)
  note t = status_transitions [where s = example_started and r' = ?r'
      and e = "FinishTask 0 strict_backend good_extract good_classify 7"
      and d = "example_db ''pending''" and b = strict_backend
      and i = 1 and x = "example_document ''pending''" and ex = good_extract
      and cl = good_classify and now = 7 and p = "''uploads/u10_charter.txt''"
      and m = "''text/plain''" and f = "''charter.txt''" and uid = 10 and info = example_info]
  from t re m' have "\<forall>r \<in> set (documents (sys_db example_started)). doc_id r = doc_id ?r' \<longrightarrow>
         ?r' = r \<or> status_move (processing_status r) (processing_status ?r')"
    by blast
  with m i have "?r' = ?r \<or> status_move (processing_status ?r) (processing_status ?r')"
    by blast
  with s s' have mv: "status_move ''processing'' ''completed''"
    by (auto simp: status_move_def)
  from t x have "map (\<lambda>s. status_of s 1)
     (process_document_commits strict_backend good_extract good_classify 7 (example_db ''pending'') 1
        ''uploads/u10_charter.txt'' ''text/plain'' ''charter.txt'') =
     [Some ''processing'',
      Some (case run_end_of strict_backend good_extract good_classify (example_db ''pending'')
                  ''uploads/u10_charter.txt'' ''text/plain'' ''charter.txt'' of
              Completes \<Rightarrow> ''completed''
            | Raises err \<Rightarrow> ''failed''
            | Refused err \<Rightarrow> ''processing'')]"
    by blast
  then have p: "map (\<lambda>s. status_of s 1)
     (process_document_commits strict_backend good_extract good_classify 7 (example_db ''pending'') 1
        ''uploads/u10_charter.txt'' ''text/plain'' ''charter.txt'') =
     [Some ''processing'', Some ''completed'']"
    by (simp only: e run_end.case)
  have e1: "run_end_of plain_backend good_extract numeric_classify (example_db ''pending'')
             ''uploads/u10_charter.txt'' ''text/plain'' ''charter.txt'' =
             Raises ''operator does not exist: character varying = other''"
    and e2: "run_end_of strict_backend good_extract numeric_classify (example_db ''pending'')
             ''uploads/u10_charter.txt'' ''text/plain'' ''charter.txt'' =
             Refused ''operator does not exist: character varying = other''"
    and e3: "run_end_of strict_backend good_extract worded_classify (example_db ''pending'')
             ''uploads/u10_charter.txt'' ''text/plain'' ''charter.txt'' =
             Refused ''invalid input syntax for type double precision''"
    by (simp_all add: run_end_of_def resolve_category_def first_category_named_def
        strict_backend_def plain_backend_def numeric_classify_def worded_classify_def example_defs)
  note t' = status_transitions [where d = "example_db ''pending''"
      and i = 1 and x = "example_document ''pending''" and ex = good_extract
      and now = 7 and p = "''uploads/u10_charter.txt''"
      and m = "''text/plain''" and f = "''charter.txt''", THEN conjunct2, THEN conjunct2, THEN mp, OF x]
  have p1: "map (\<lambda>s. status_of s 1)
     (process_document_commits plain_backend good_extract numeric_classify 7 (example_db ''pending'') 1
        ''uploads/u10_charter.txt'' ''text/plain'' ''charter.txt'') =
     [Some ''processing'', Some ''failed'']"
    using t' [of plain_backend numeric_classify] by (simp only: e1 run_end.case)
  have p2: "map (\<lambda>s. status_of s 1)
     (process_document_commits strict_backend good_extract numeric_classify 7 (example_db ''pending'') 1
        ''uploads/u10_charter.txt'' ''text/plain'' ''charter.txt'') =
     [Some ''processing'', Some ''processing'']"
    using t' [of strict_backend numeric_classify] by (simp only: e2 run_end.case)
  have p3: "map (\<lambda>s. status_of s 1)
     (process_document_commits strict_backend good_extract worded_classify 7 (example_db ''pending'') 1
        ''uploads/u10_charter.txt'' ''text/plain'' ''charter.txt'') =
     [Some ''processing'', Some ''processing'']"
    using t' [of strict_backend worded_classify] by (simp only: e3 run_end.case)
  have ms: "map processing_status (documents (sys_db example_started)) = [''processing'']"
    by (subst d) (simp add: s)
  have ms': "map processing_status (documents (sys_db example_system)) = [''completed'']"
    by (subst d') (simp add: s')
  from re ms ms' mv x e p p1 p2 p3 show ?thesis by (intro conjI)
qed

text \<open>
  The claim as stated fails: re-invoking the step on a \<open>failed\<close> document moves it out
  of that terminal status, through \<open>processing\<close> to \<open>completed\<close>.
\<close>

theorem terminal_left_counterexample:
  "status_of (example_db ''failed'') 1 = Some ''failed'' \<and>
   map (\<lambda>s. status_of s 1)
     (process_document_commits strict_backend good_extract good_classify 7 (example_db ''failed'') 1
        ''uploads/u10_charter.txt'' ''text/plain'' ''charter.txt'') =
     [Some ''processing'', Some ''completed'']"
  by (simp add: status_of_def first_document_def example_db_def example_document_def
      new_document_def example_info_def process_document_commits_def start_processing_def
      finish_processing_def commit_document_def good_extract_def good_classify_def
      apply_classification_def resolve_category_def first_category_named_def dict_get_def
      session_commit_def strict_backend_def Let_def)

section \<open>Properties of the status query\<close>

lemma find_owned:
  "find (\<lambda>r. doc_id r = i) rs = Some r \<Longrightarrow> user_id r = uid \<Longrightarrow>
     find (\<lambda>r. doc_id r = i \<and> user_id r = uid) rs = Some r"
  by (induction rs) (auto split: if_splits)

lemma first_document_of_user_eq:
  "first_document d i = Some r \<Longrightarrow> user_id r = uid \<Longrightarrow> first_document_of_user d i uid = Some r"
  unfolding first_document_def first_document_of_user_def by (rule find_owned)

text \<open>With primary keys, the row of an id is the one row that has it.\<close>

lemma first_document_unique:
  assumes u: "unique_ids d" and r: "r \<in> set (documents d)"
  shows "first_document d (doc_id r) = Some r"
proof (cases "first_document d (doc_id r)")
  case None
  from first_document_None [OF None] r show ?thesis by auto
next
  case (Some x)
  from first_document_in [OF Some] have "x \<in> set (documents d)" "doc_id x = doc_id r"
    by simp_all
  from unique_ids_eq [OF u r this] Some show ?thesis by simp
qed

lemma reachable_completed:
  assumes "reachable s"
      and "r \<in> set (documents (sys_db s))"
      and "processing_status r = ''completed''"
  shows "processing_error r = None \<and> extracted_text r \<noteq> None \<and> processed_at r \<noteq> None \<and>
         (\<exists>c. calls_for (sys_oracle_log s) (doc_id r) = [c] \<and> written_from c r \<and> lookup_ok c)"
proof -
  from assms(1) have inv: "sys_inv s" by (rule reachable_inv)
  then have "docs_ok s" by (simp add: sys_inv_def)
  with assms(2) have "doc_ok (sys_oracle_log s) r" by (simp add: docs_ok_def)
  with assms(3) obtain c where
    o: "processing_error r = None" "extracted_text r \<noteq> None" "processed_at r \<noteq> None"
       "calls_for (sys_oracle_log s) (doc_id r) = [c]" "written_from c r"
    by (auto simp: doc_ok_def)
  from o(4) have "c \<in> set (calls_for (sys_oracle_log s) (doc_id r))" by simp
  then have "c \<in> set (sys_oracle_log s)" by (simp add: calls_for_def)
  with inv have "lookup_ok c" by (simp add: sys_inv_def ids_ok_def)
  with o show ?thesis by simp
qed

text \<open>
  The status query on a completed document of the running system whose lookup found no
  category.
\<close>

lemma status_of_unmatched:
  assumes re: "reachable s"
      and r: "r \<in> set (documents (sys_db s))"
      and st: "processing_status r = ''completed''"
      and c: "calls_for (sys_oracle_log s) (doc_id r) = [c]"
      and n: "oc_lookup c = Inr None"
  shows "get_document_status (sys_db s) (user_id r) (doc_id r) =
           Inr \<lparr>document_id = doc_id r, status = ''completed'', progress = 1,
                 error_message = None, classification_result = None\<rparr> \<and>
         classification_confidence r = dict_get (oc_result c) ''confidence'' (JNum 0) \<and>
         classification_reasoning r = dict_get (oc_result c) ''reasoning'' JNull \<and>
         key_entities r = dict_get (oc_result c) ''key_entities'' (JList []) \<and>
         summary r = dict_get (oc_result c) ''summary'' JNull"
proof -
  from reachable_completed [OF re r st] c have
    e: "processing_error r = None" and w: "written_from c r" by simp_all
  from w n have cat: "category_id r = None" by (auto simp: written_from_def)
  from re have u: "unique_ids (sys_db s)" by (rule reachable_unique_ids)
  from first_document_unique [OF u r]
  have "first_document_of_user (sys_db s) (doc_id r) (user_id r) = Some r"
    by (rule first_document_of_user_eq) simp
  then have "get_document_status (sys_db s) (user_id r) (doc_id r) =
           Inr \<lparr>document_id = doc_id r, status = ''completed'', progress = 1,
                 error_message = None, classification_result = None\<rparr>"
    by (simp add: get_document_status_def category_of_def cat st e progress_map_get_def Let_def)
  with w show ?thesis by (simp add: written_from_def)
qed

text \<open>
  Claim C10: the status query reports a classification result only for a document that
  is \<open>completed\<close> and whose category reference resolves to a category. In particular, in
  every reachable state of the system a \<open>completed\<close> document has one logged
  classification call, and when the lookup of that call found no category the status
  query reports \<open>completed\<close> with no classification result, although confidence,
  reasoning, entities and summary are stored as the call's result gives them.
\<close>

theorem status_result_needs_category:
  "(\<forall>st. get_document_status d uid i = Inr st \<longrightarrow> classification_result st \<noteq> None \<longrightarrow>
      status st = ''completed'' \<and>
      (\<exists>r. first_document_of_user d i uid = Some r \<and> category_of d r \<noteq> None)) \<and>
   (reachable s \<and> r \<in> set (documents (sys_db s)) \<and> processing_status r = ''completed'' \<longrightarrow>
      (\<exists>c. calls_for (sys_oracle_log s) (doc_id r) = [c] \<and> lookup_ok c \<and>
         (oc_lookup c = Inr None \<longrightarrow>
            get_document_status (sys_db s) (user_id r) (doc_id r) =
              Inr \<lparr>document_id = doc_id r, status = ''completed'', progress = 1,
                    error_message = None, classification_result = None\<rparr> \<and>
            classification_confidence r = dict_get (oc_result c) ''confidence'' (JNum 0) \<and>
            classification_reasoning r = dict_get (oc_result c) ''reasoning'' JNull \<and>
            key_entities r = dict_get (oc_result c) ''key_entities'' (JList []) \<and>
            summary r = dict_get (oc_result c) ''summary'' JNull)))"
proof (intro conjI allI impI)
  fix st
  assume "get_document_status d uid i = Inr st" "classification_result st \<noteq> None"
  then show "status st = ''completed''"
    by (auto simp: get_document_status_def Let_def split: option.splits if_splits)
next
  fix st
  assume "get_document_status d uid i = Inr st" "classification_result st \<noteq> None"
  then show "\<exists>r. first_document_of_user d i uid = Some r \<and> category_of d r \<noteq> None"
    by (auto simp: get_document_status_def Let_def split: option.splits if_splits)
next
  assume a: "reachable s \<and> r \<in> set (documents (sys_db s)) \<and> processing_status r = ''completed''"
  then have re: "reachable s" and r: "r \<in> set (documents (sys_db s))"
    and st: "processing_status r = ''completed''" by simp_all
  from reachable_completed [OF re r st] obtain c where
    c: "calls_for (sys_oracle_log s) (doc_id r) = [c]" and l: "lookup_ok c" by auto
  from status_of_unmatched [OF re r st c] c l
  show "\<exists>c. calls_for (sys_oracle_log s) (doc_id r) = [c] \<and> lookup_ok c \<and>
         (oc_lookup c = Inr None \<longrightarrow>
            get_document_status (sys_db s) (user_id r) (doc_id r) =
              Inr \<lparr>document_id = doc_id r, status = ''completed'', progress = 1,
                    error_message = None, classification_result = None\<rparr> \<and>
            classification_confidence r = dict_get (oc_result c) ''confidence'' (JNum 0) \<and>
            classification_reasoning r = dict_get (oc_result c) ''reasoning'' JNull \<and>
            key_entities r = dict_get (oc_result c) ''key_entities'' (JList []) \<and>
            summary r = dict_get (oc_result c) ''summary'' JNull)"
    by blast
qed

lemma example_unmatched_reachable: "reachable example_unmatched"
  unfolding example_unmatched_def example_started_def example_uploaded_def
  by (intro reachable_step reachable_initial)

theorem status_result_needs_category_witness:
  "reachable example_unmatched \<and>
   map doc_id (documents (sys_db example_unmatched)) = [1] \<and>
   map user_id (documents (sys_db example_unmatched)) = [10] \<and>
   map processing_status (documents (sys_db example_unmatched)) = [''completed''] \<and>
   map (\<lambda>c. oc_result c ''category_name'') (calls_for (sys_oracle_log example_unmatched) 1) =
     [Some (JStr ''Tax'')] \<and>
   map oc_lookup (calls_for (sys_oracle_log example_unmatched) 1) = [Inr None] \<and>
   get_document_status (sys_db example_unmatched) 10 1 =
     Inr \<lparr>document_id = 1, status = ''completed'', progress = 1,
           error_message = None, classification_result = None\<rparr> \<and>
   map classification_confidence (documents (sys_db example_unmatched)) = [JNum 0.8] \<and>
   map summary (documents (sys_db example_unmatched)) = [JStr ''A tax form''] \<and>
   (\<exists>st. get_document_status (sys_db example_system) 10 1 = Inr st \<and>
         classification_result st \<noteq> None \<and> status st = ''completed'')"
proof -
  let ?r = "hd (documents (sys_db example_unmatched))"
  let ?lg = "calls_for (sys_oracle_log example_unmatched) 1"
  have "length (documents (sys_db example_unmatched)) = 1" by code_simp
  then have d: "documents (sys_db example_unmatched) = [?r]" by (rule singleton_hd)
  have m: "?r \<in> set (documents (sys_db example_unmatched))" by (subst d) simp
  have i: "doc_id ?r = 1" and u: "user_id ?r = 10" and st: "processing_status ?r = ''completed''"
    by code_simp+
  have "length ?lg = 1" by code_simp
  then have lg: "?lg = [hd ?lg]" by (rule singleton_hd)
  have nm: "oc_result (hd ?lg) ''category_name'' = Some (JStr ''Tax'')"
    and lk: "oc_lookup (hd ?lg) = Inr None"
    and cf: "dict_get (oc_result (hd ?lg)) ''confidence'' (JNum 0) = JNum 0.8"
    and sm: "dict_get (oc_result (hd ?lg)) ''summary'' JNull = JStr ''A tax form''"
    by code_simp+
  note t = status_result_needs_category [where s = example_unmatched and r = ?r
      and d = "sys_db example_system" and uid = 10 and i = 1]
  from t example_unmatched_reachable m st obtain c where
    c: "calls_for (sys_oracle_log example_unmatched) (doc_id ?r) = [c]"
    and imp: "oc_lookup c = Inr None \<longrightarrow>
            get_document_status (sys_db example_unmatched) (user_id ?r) (doc_id ?r) =
              Inr \<lparr>document_id = doc_id ?r, status = ''completed'', progress = 1,
                    error_message = None, classification_result = None\<rparr> \<and>
            classification_confidence ?r = dict_get (oc_result c) ''confidence'' (JNum 0) \<and>
            classification_reasoning ?r = dict_get (oc_result c) ''reasoning'' JNull \<and>
            key_entities ?r = dict_get (oc_result c) ''key_entities'' (JList []) \<and>
            summary ?r = dict_get (oc_result c) ''summary'' JNull"
    by blast
  from c i lg have ceq: "c = hd ?lg" by simp
  from imp lk have g: "get_document_status (sys_db example_unmatched) 10 1 =
              Inr \<lparr>document_id = 1, status = ''completed'', progress = 1,
                    error_message = None, classification_result = None\<rparr>"
    and cc: "classification_confidence ?r = JNum 0.8"
    and ss: "summary ?r = JStr ''A tax form''"
    by (simp_all add: ceq i u cf sm)
  have "case get_document_status (sys_db example_system) 10 1 of
          Inl e \<Rightarrow> False
        | Inr st \<Rightarrow> classification_result st \<noteq> None"
    by code_simp
  then have q: "\<exists>st. get_document_status (sys_db example_system) 10 1 = Inr st \<and>
         classification_result st \<noteq> None"
    by (cases "get_document_status (sys_db example_system) 10 1") simp_all
  then obtain st' where q': "get_document_status (sys_db example_system) 10 1 = Inr st'"
    "classification_result st' \<noteq> None" by blast
  with t have "status st' = ''completed''" by blast
  with q' have q'': "\<exists>st. get_document_status (sys_db example_system) 10 1 = Inr st \<and>
         classification_result st \<noteq> None \<and> status st = ''completed''" by blast
  have m1: "map doc_id (documents (sys_db example_unmatched)) = [1]"
    by (subst d) (simp add: i)
  have m2: "map user_id (documents (sys_db example_unmatched)) = [10]"
    by (subst d) (simp add: u)
  have m3: "map processing_status (documents (sys_db example_unmatched)) = [''completed'']"
    by (subst d) (simp add: st)
  have m4: "map (\<lambda>c. oc_result c ''category_name'') ?lg = [Some (JStr ''Tax'')]"
    by (subst lg) (simp add: nm)
  have m5: "map oc_lookup ?lg = [Inr None]"
    by (subst lg) (simp add: lk)
  have m6: "map classification_confidence (documents (sys_db example_unmatched)) = [JNum 0.8]"
    by (subst d) (simp add: cc)
  have m7: "map summary (documents (sys_db example_unmatched)) = [JStr ''A tax form'']"
    by (subst d) (simp add: ss)
  from example_unmatched_reachable m1 m2 m3 m4 m5 g m6 m7 q'' show ?thesis
    by (intro conjI)
qed

end
